theory Spec2Isabelle
  imports Complex_Main
begin

section \<open>The gesture engine of gesture\_client.py\<close>

text \<open>
  The model follows class \<open>GestureEngine\<close> of
  \<^verbatim>\<open>src/Voice_and_Gesture_Control_UI/gesture_client.py\<close>.
  Python floats are modelled as real numbers: comparisons against the thresholds,
  sums and differences are exact, and \<open>math.sqrt\<close> is the real square root.
  The clock \<open>time.monotonic()\<close> that \<open>update\<close> reads in its first line is a
  parameter \<open>now\<close> of the model. The calls into the debug overlay and the console
  log have no effect on the engine or on the payload and are left out; so are the two
  payload fields \<open>event_id\<close> (a fresh uuid) and \<open>timestamp\<close> (the wall clock).
\<close>

subsection \<open>Configuration constants\<close>

definition PINCH_DIST :: real where "PINCH_DIST = 0.04"
definition PINCH_EXIT :: real where "PINCH_EXIT = 0.05"
definition TAP_MAX_TIME :: real where "TAP_MAX_TIME = 0.20"
definition HOLD_MIN_MS :: real where "HOLD_MIN_MS = 500"
definition DRAG_DEADZONE :: real where "DRAG_DEADZONE = 0.05"
definition FLICK_VELOCITY :: real where "FLICK_VELOCITY = 0.30"
definition DOUBLE_TAP_COOL :: real where "DOUBLE_TAP_COOL = 0.30"

definition THUMB_TIP :: nat where "THUMB_TIP = 4"
definition INDEX_TIP :: nat where "INDEX_TIP = 8"
definition MIDDLE_TIP :: nat where "MIDDLE_TIP = 12"

lemmas config_defs =
  PINCH_DIST_def PINCH_EXIT_def TAP_MAX_TIME_def HOLD_MIN_MS_def DRAG_DEADZONE_def
  FLICK_VELOCITY_def DOUBLE_TAP_COOL_def

lemmas tip_defs = THUMB_TIP_def INDEX_TIP_def MIDDLE_TIP_def

subsection \<open>Data\<close>

text \<open>A landmark of the detector: an object with attributes \<open>x\<close>, \<open>y\<close>, \<open>z\<close>.\<close>

record landmark =
  lm_x :: real
  lm_y :: real
  lm_z :: real

datatype error = IndexError | ZeroDivisionError

text \<open>The class constants \<open>S_IDLE = 0\<close>, \<open>S_IDX_PINCH = 1\<close>, \<open>S_MID_PINCH = 2\<close>.\<close>

datatype estate = S_IDLE | S_IDX_PINCH | S_MID_PINCH

type_synonym sample = "real \<times> real \<times> real"

text \<open>The attributes that \<open>__init__\<close> creates, in its order.\<close>

record engine =
  state :: estate
  idx_pinched :: bool
  mid_pinched :: bool
  idx_dist :: real
  mid_dist :: real
  pinch_t0 :: real
  dur_ms :: real
  prev_palm :: "(real \<times> real) option"
  frame_dx :: real
  frame_dy :: real
  cum_move :: real
  moved :: bool
  trail :: "sample list"
  vel :: real
  tap_count :: int
  gtype :: string
  gstate :: string
  cursor_x :: real
  cursor_y :: real
  dbl_cooldown_until :: real
  flash_label :: string
  flash_until :: real

definition init_engine :: engine where
  "init_engine =
     \<lparr> state = S_IDLE, idx_pinched = False, mid_pinched = False,
       idx_dist = 1, mid_dist = 1, pinch_t0 = 0, dur_ms = 0,
       prev_palm = None, frame_dx = 0, frame_dy = 0, cum_move = 0, moved = False,
       trail = [], vel = 0, tap_count = 0, gtype = ''none'', gstate = ''idle'',
       cursor_x = 0.5, cursor_y = 0.5, dbl_cooldown_until = 0,
       flash_label = [], flash_until = 0 \<rparr>"

text \<open>The dictionary that \<open>_payload\<close> builds, flattened; one field per leaf.\<close>

record frame_event =
  success :: bool
  ev_type :: string
  ev_state :: string
  confidence :: real
  handedness :: string
  landmarks :: "(nat \<times> real \<times> real \<times> real) list"
  world_coordinates :: "real \<times> real \<times> real"
  is_pinched :: bool
  pinch_strength :: real
  pinch_distance :: real
  origin :: "real \<times> real"
  current :: "real \<times> real"
  delta :: "real \<times> real"
  velocity :: "real \<times> real"
  duration_ms :: real
  ev_tap_count :: int
  cursor :: "real \<times> real"

subsection \<open>Helpers\<close>

text \<open>\<open>_dist(a, b)\<close>: the planar Euclidean distance; \<open>z\<close> is not used.\<close>

definition dist_lm :: "landmark \<Rightarrow> landmark \<Rightarrow> real" where
  "dist_lm a b = sqrt ((lm_x a - lm_x b)\<^sup>2 + (lm_y a - lm_y b)\<^sup>2)"

text \<open>\<open>lm[i]\<close> for a constant index \<open>i \<ge> 0\<close>: IndexError past the end.\<close>

definition lm_get :: "landmark list \<Rightarrow> nat \<Rightarrow> error + landmark" where
  "lm_get lm i = (if i < length lm then Inr (lm ! i) else Inl IndexError)"

text \<open>
  Python's \<open>round(v, n)\<close> on the real number line: the nearest multiple of
  \<open>10\<^sup>-\<^sup>n\<close>, a tie going to the even one.
\<close>

definition round_half_even :: "real \<Rightarrow> int" where
  "round_half_even v =
     (let f = \<lfloor>v\<rfloor>; r = v - of_int f
      in if r < 1/2 then f else if 1/2 < r then f + 1 else if even f then f else f + 1)"

definition py_round :: "real \<Rightarrow> nat \<Rightarrow> real" where
  "py_round v n = of_int (round_half_even (v * 10 ^ n)) / 10 ^ n"

text \<open>\<open>deque(maxlen=12).append\<close>: a full deque drops its oldest element.\<close>

definition trail_append :: "sample list \<Rightarrow> sample \<Rightarrow> sample list" where
  "trail_append tr p = (let tr' = tr @ [p] in if 12 < length tr' then tl tr' else tr')"

subsection \<open>Velocity\<close>

text \<open>
  The loop of \<open>_calc_vel\<close>: \<open>best\<close> moves forward while the sample is not newer
  than \<open>target_t\<close>, and the loop breaks at the first newer sample.
\<close>

fun scan_best :: "real \<Rightarrow> sample \<Rightarrow> sample list \<Rightarrow> sample" where
  "scan_best target_t best [] = best"
| "scan_best target_t best (pt # pts) =
     (if snd (snd pt) \<le> target_t then scan_best target_t pt pts else best)"

text \<open>
  \<open>_calc_vel\<close>. The reads \<open>_trail[-1]\<close> and \<open>_trail[0]\<close> raise on an empty deque and
  the division raises on a zero divisor; both are branches of the model.
\<close>

definition calc_vel :: "sample list \<Rightarrow> error + real" where
  "calc_vel tr =
     (if length tr < 3 then Inr 0
      else if tr = [] then Inl IndexError
      else
        let now = snd (snd (last tr));
            target_t = now - 0.1;
            (x0, y0, t0) = scan_best target_t (hd tr) tr;
            (x1, y1, t1) = last tr;
            dt = t1 - t0
        in if dt < 0.01 then Inr 0
           else if dt = 0 then Inl ZeroDivisionError
           else Inr (sqrt ((x1 - x0)\<^sup>2 + (y1 - y0)\<^sup>2) * (0.1 / dt)))"

subsection \<open>Transitions\<close>

definition enter_idx_pinch :: "engine \<Rightarrow> real \<Rightarrow> real \<Rightarrow> real \<Rightarrow> engine" where
  "enter_idx_pinch s now ix iy =
     s\<lparr> state := S_IDX_PINCH, pinch_t0 := now, prev_palm := Some (ix, iy),
        cum_move := 0, moved := False, trail := trail_append [] (ix, iy, now),
        gtype := ''pinch_hold'', gstate := ''start'' \<rparr>"

definition enter_mid_pinch :: "engine \<Rightarrow> real \<Rightarrow> engine" where
  "enter_mid_pinch s now =
     s\<lparr> state := S_MID_PINCH, pinch_t0 := now,
        gtype := ''double_tap'', gstate := ''start'' \<rparr>"

definition reset_pinch :: "engine \<Rightarrow> engine" where
  "reset_pinch s = s\<lparr> prev_palm := None, cum_move := 0, moved := False \<rparr>"

definition flash :: "engine \<Rightarrow> string \<Rightarrow> real \<Rightarrow> engine" where
  "flash s label now = s\<lparr> flash_label := label, flash_until := now + 0.6 \<rparr>"

subsection \<open>One frame\<close>

text \<open>
  The first part of \<open>update\<close>, up to the state machine: the cursor, the two raw
  distances, the hysteresis of each pinch flag, the velocity trail and the reset of the
  per-frame deltas.
\<close>

definition sense :: "engine \<Rightarrow> landmark \<Rightarrow> landmark \<Rightarrow> landmark \<Rightarrow> real \<Rightarrow> engine" where
  "sense s thumb index middle now =
     (let ix = lm_x index; iy = lm_y index;
          s = s\<lparr> cursor_x := ix, cursor_y := iy \<rparr>;
          s = s\<lparr> idx_dist := dist_lm thumb index, mid_dist := dist_lm thumb middle \<rparr>;
          s = (if \<not> idx_pinched s \<and> idx_dist s < PINCH_DIST then s\<lparr> idx_pinched := True \<rparr>
               else if idx_pinched s \<and> idx_dist s > PINCH_EXIT then s\<lparr> idx_pinched := False \<rparr>
               else s);
          s = (if \<not> mid_pinched s \<and> mid_dist s < PINCH_DIST then s\<lparr> mid_pinched := True \<rparr>
               else if mid_pinched s \<and> mid_dist s > PINCH_EXIT then s\<lparr> mid_pinched := False \<rparr>
               else s);
          s = s\<lparr> trail := trail_append (trail s) (ix, iy, now) \<rparr>;
          s = s\<lparr> frame_dx := 0, frame_dy := 0 \<rparr>
      in s)"

text \<open>The branch \<open>self.state == self.S_IDLE\<close>.\<close>

definition idle_branch :: "engine \<Rightarrow> real \<Rightarrow> real \<Rightarrow> real \<Rightarrow> engine" where
  "idle_branch s ix iy now =
     (let s = s\<lparr> gtype := ''none'', gstate := ''idle'' \<rparr>
      in if mid_pinched s then enter_mid_pinch s now
         else if idx_pinched s \<and> now > dbl_cooldown_until s then enter_idx_pinch s now ix iy
         else s)"

text \<open>The branch \<open>self.state == self.S_MID_PINCH\<close>.\<close>

definition mid_branch :: "engine \<Rightarrow> real \<Rightarrow> engine" where
  "mid_branch s now =
     (let s = s\<lparr> dur_ms := (now - pinch_t0 s) * 1000 \<rparr>
      in if mid_pinched s then s\<lparr> gtype := ''double_tap'', gstate := ''start'' \<rparr>
         else
           let dur_s = dur_ms s / 1000;
               s = (if dur_s < TAP_MAX_TIME
                    then (flash (s\<lparr> gtype := ''double_tap'', gstate := ''end'', tap_count := 2 \<rparr>)
                            ''DOUBLE TAP'' now)
                         \<lparr> dbl_cooldown_until := now + DOUBLE_TAP_COOL \<rparr>
                    else s\<lparr> gtype := ''none'', gstate := ''idle'' \<rparr>)
           in s\<lparr> state := S_IDLE \<rparr>)"

text \<open>The branch \<open>self.state == self.S_IDX_PINCH\<close>, while the index pinch lasts.\<close>

definition idx_track :: "engine \<Rightarrow> real \<Rightarrow> real \<Rightarrow> engine" where
  "idx_track s ix iy =
     (let s = (case prev_palm s of
                 None \<Rightarrow> s
               | Some (px, py) \<Rightarrow>
                   let s = s\<lparr> frame_dx := ix - px, frame_dy := iy - py \<rparr>;
                       fm = sqrt ((frame_dx s)\<^sup>2 + (frame_dy s)\<^sup>2)
                   in s\<lparr> cum_move := cum_move s + fm \<rparr>);
          s = s\<lparr> prev_palm := Some (ix, iy) \<rparr>;
          s = (if cum_move s > DRAG_DEADZONE then s\<lparr> moved := True \<rparr> else s)
      in if moved s then s\<lparr> gtype := ''pinch_drag'', gstate := ''active'' \<rparr>
         else if dur_ms s > HOLD_MIN_MS then s\<lparr> gtype := ''pinch_hold'', gstate := ''active'' \<rparr>
         else s\<lparr> gtype := ''pinch_hold'', gstate := ''start'' \<rparr>)"

text \<open>The same branch at the release of the index pinch.\<close>

definition idx_release :: "engine \<Rightarrow> real \<Rightarrow> error + engine" where
  "idx_release s now =
     (case calc_vel (trail s) of
        Inl e \<Rightarrow> Inl e
      | Inr v \<Rightarrow>
          let s = s\<lparr> vel := v \<rparr>;
              dur_s = dur_ms s / 1000;
              s = (if moved s \<and> vel s > FLICK_VELOCITY
                   then flash (s\<lparr> gtype := ''pinch_flick'', gstate := ''end'' \<rparr>) ''FLICK'' now
                   else if dur_s < TAP_MAX_TIME \<and> \<not> moved s
                   then flash (s\<lparr> gtype := ''tap'', gstate := ''end'', tap_count := 1 \<rparr>) ''TAP'' now
                   else if moved s then s\<lparr> gtype := ''pinch_drag'', gstate := ''end'' \<rparr>
                   else s\<lparr> gtype := ''pinch_hold'', gstate := ''end'' \<rparr>);
              s = reset_pinch s
          in Inr (s\<lparr> state := S_IDLE \<rparr>))"

definition idx_branch :: "engine \<Rightarrow> real \<Rightarrow> real \<Rightarrow> real \<Rightarrow> error + engine" where
  "idx_branch s ix iy now =
     (let s = s\<lparr> dur_ms := (now - pinch_t0 s) * 1000 \<rparr>
      in if idx_pinched s then Inr (idx_track s ix iy) else idx_release s now)"

text \<open>The state machine of \<open>update\<close>: the chain \<open>if / elif / elif\<close> on \<open>self.state\<close>.\<close>

definition machine :: "engine \<Rightarrow> real \<Rightarrow> real \<Rightarrow> real \<Rightarrow> error + engine" where
  "machine s ix iy now =
     (if state s = S_IDLE then Inr (idle_branch s ix iy now)
      else if state s = S_MID_PINCH then Inr (mid_branch s now)
      else if state s = S_IDX_PINCH then idx_branch s ix iy now
      else Inr s)"

text \<open>
  \<open>_payload\<close>: the dictionary literal, given the landmark \<open>lm[INDEX_TIP]\<close> that its
  \<open>world_coordinates\<close> read.
\<close>

definition payload_dict :: "engine \<Rightarrow> landmark list \<Rightarrow> landmark \<Rightarrow> frame_event" where
  "payload_dict s lm tip =
     \<lparr> success = True,
       ev_type = gtype s,
       ev_state = gstate s,
       confidence = 1 - min (idx_dist s) (mid_dist s),
       handedness = ''Right'',
       landmarks =
         map (\<lambda>(i, l). (i, py_round (lm_x l) 5, py_round (lm_y l) 5, py_round (lm_z l) 5))
           (enumerate 0 lm),
       world_coordinates =
         (py_round (lm_x tip) 5, py_round (lm_y tip) 5, py_round (lm_z tip) 5),
       is_pinched = (idx_pinched s \<or> mid_pinched s),
       pinch_strength = py_round (max 0 (1 - idx_dist s / PINCH_EXIT)) 4,
       pinch_distance = py_round (idx_dist s) 5,
       origin = (py_round (cursor_x s) 5, py_round (cursor_y s) 5),
       current = (py_round (cursor_x s) 5, py_round (cursor_y s) 5),
       delta = (py_round (frame_dx s) 5, py_round (frame_dy s) 5),
       velocity = (py_round (frame_dx s * 1000) 2, py_round (frame_dy s * 1000) 2),
       duration_ms = py_round (dur_ms s) 1,
       ev_tap_count = tap_count s,
       cursor = (py_round (cursor_x s) 5, py_round (cursor_y s) 5) \<rparr>"

definition payload :: "engine \<Rightarrow> landmark list \<Rightarrow> error + frame_event" where
  "payload s lm =
     (case lm_get lm INDEX_TIP of
        Inl e \<Rightarrow> Inl e
      | Inr tip \<Rightarrow> Inr (payload_dict s lm tip))"

text \<open>
  \<open>update\<close>: the three landmark reads, the frame's measurements, the state machine and
  the payload. The result is the engine after the frame together with the returned event,
  or the exception that ended the call.
\<close>

definition update :: "engine \<Rightarrow> landmark list \<Rightarrow> real \<Rightarrow> error + engine \<times> frame_event" where
  "update s lm now =
     (case lm_get lm THUMB_TIP of Inl e \<Rightarrow> Inl e | Inr thumb \<Rightarrow>
       (case lm_get lm INDEX_TIP of Inl e \<Rightarrow> Inl e | Inr index \<Rightarrow>
         (case lm_get lm MIDDLE_TIP of Inl e \<Rightarrow> Inl e | Inr middle \<Rightarrow>
           (case machine (sense s thumb index middle now) (lm_x index) (lm_y index) now of
              Inl e \<Rightarrow> Inl e
            | Inr s' \<Rightarrow>
                (case payload s' lm of Inl e \<Rightarrow> Inl e | Inr ev \<Rightarrow> Inr (s', ev))))))"

text \<open>
  The frame loop of \<open>run()\<close> as far as the engine is concerned: one call of \<open>update\<close>
  per frame, on the same engine. The result lists, frame by frame, the engine after the
  call and the event it returned; an exception ends the loop.
\<close>

fun run_frames :: "engine \<Rightarrow> (landmark list \<times> real) list \<Rightarrow> error + (engine \<times> frame_event) list" where
  "run_frames s [] = Inr []"
| "run_frames s ((lm, now) # fs) =
     (case update s lm now of
        Inl e \<Rightarrow> Inl e
      | Inr (s', ev) \<Rightarrow>
          (case run_frames s' fs of
             Inl e \<Rightarrow> Inl e
           | Inr tr \<Rightarrow> Inr ((s', ev) # tr)))"

text \<open>What a frame shows of the classification: the engine state, the event type and phase.\<close>

definition label :: "engine \<times> frame_event \<Rightarrow> estate \<times> string \<times> string" where
  "label r = (state (fst r), ev_type (snd r), ev_state (snd r))"

subsection \<open>Measurements of a frame\<close>

text \<open>The two raw distances and the tracked point that \<open>update\<close> reads off a landmark list.\<close>

definition idx_d :: "landmark list \<Rightarrow> real" where
  "idx_d lm = dist_lm (lm ! THUMB_TIP) (lm ! INDEX_TIP)"

definition mid_d :: "landmark list \<Rightarrow> real" where
  "mid_d lm = dist_lm (lm ! THUMB_TIP) (lm ! MIDDLE_TIP)"

definition tip :: "landmark list \<Rightarrow> real \<times> real" where
  "tip lm = (lm_x (lm ! INDEX_TIP), lm_y (lm ! INDEX_TIP))"

text \<open>
  The hysteresis detector in the words of the specification: a flag that is off turns on
  below the enter threshold, a flag that is on turns off above the exit threshold, and
  nothing else changes it.
\<close>

definition new_pinched :: "real \<Rightarrow> bool \<Rightarrow> bool" where
  "new_pinched distance previous =
     (if \<not> previous \<and> distance < 0.04 then True
      else if previous \<and> distance > 0.05 then False
      else previous)"

text \<open>Shorthand: the engine after the first part of \<open>update\<close>, and the event of an engine.\<close>

abbreviation sensed :: "engine \<Rightarrow> landmark list \<Rightarrow> real \<Rightarrow> engine" where
  "sensed s lm now \<equiv> sense s (lm ! THUMB_TIP) (lm ! INDEX_TIP) (lm ! MIDDLE_TIP) now"

abbreviation ev_of :: "engine \<Rightarrow> landmark list \<Rightarrow> frame_event" where
  "ev_of s lm \<equiv> payload_dict s lm (lm ! INDEX_TIP)"

subsection \<open>Concrete frames\<close>

text \<open>
  A hand of 21 landmarks with the thumb tip, the index tip and the middle tip at the
  given points and every other landmark at the wrist.
\<close>

definition pt :: "real \<Rightarrow> real \<Rightarrow> landmark" where
  "pt a b = \<lparr> lm_x = a, lm_y = b, lm_z = 0 \<rparr>"

definition hand :: "landmark \<Rightarrow> landmark \<Rightarrow> landmark \<Rightarrow> landmark list" where
  "hand thumb index middle =
     (let w = pt 0.5 0.9
      in [w, w, w, w, thumb, w, w, w, index, w, w, w, middle, w, w, w, w, w, w, w, w])"

definition open_hand :: "landmark list" where
  "open_hand = hand (pt 0.4 0.5) (pt 0.6 0.5) (pt 0.4 0.9)"

definition idx_hand :: "landmark list" where
  "idx_hand = hand (pt 0.48 0.5) (pt 0.5 0.5) (pt 0.48 0.9)"

definition mid_hand :: "landmark list" where
  "mid_hand = hand (pt 0.5 0.88) (pt 0.5 0.5) (pt 0.5 0.9)"

definition both_hand :: "landmark list" where
  "both_hand = hand (pt 0.5 0.5) (pt 0.52 0.5) (pt 0.5 0.52)"

text \<open>An engine in the middle of a fast index-pinch drag.\<close>

definition flicking :: engine where
  "flicking =
     init_engine\<lparr> state := S_IDX_PINCH, idx_pinched := True, pinch_t0 := 0.5, moved := True,
                  prev_palm := Some (0.3, 0.5), cum_move := 0.2,
                  trail := [(0.1, 0.5, 0.9), (0.3, 0.5, 0.95)] \<rparr>"

text \<open>An engine that entered a middle pinch at time 1.\<close>

definition mid_pinching :: engine where
  "mid_pinching =
     init_engine\<lparr> state := S_MID_PINCH, mid_pinched := True, pinch_t0 := 1,
                  gtype := ''double_tap'', gstate := ''start'' \<rparr>"

subsection \<open>Traces of a pinch flag\<close>

text \<open>The flag of a channel over a sequence of distances, by the detector of the specification.\<close>

fun flag_trace :: "bool \<Rightarrow> real list \<Rightarrow> bool list" where
  "flag_trace previous [] = []"
| "flag_trace previous (d # ds) =
     new_pinched d previous # flag_trace (new_pinched d previous) ds"

text \<open>How often a sequence of flag values changes from one element to the next.\<close>

fun changes :: "bool list \<Rightarrow> nat" where
  "changes (a # b # bs) = (if a \<noteq> b then 1 else 0) + changes (b # bs)"
| "changes bs = 0"

text \<open>A sequence that never rises, and one that first never falls and then never rises.\<close>

fun noninc :: "real list \<Rightarrow> bool" where
  "noninc (a # b # ds) = (b \<le> a \<and> noninc (b # ds))"
| "noninc ds = True"

fun unimodal :: "real list \<Rightarrow> bool" where
  "unimodal (a # b # ds) = (if a \<le> b then unimodal (b # ds) else noninc (b # ds))"
| "unimodal ds = True"

text \<open>How often a sequence passes from one side of a threshold test to the other.\<close>

fun crossings :: "(real \<Rightarrow> bool) \<Rightarrow> real list \<Rightarrow> nat" where
  "crossings P (a # b # ds) = (if P a \<noteq> P b then 1 else 0) + crossings P (b # ds)"
| "crossings P ds = 0"

text \<open>A frame with the thumb tip at distance \<open>d\<close> from the index tip, the hand at rest.\<close>

definition pinch_frame :: "real \<Rightarrow> landmark list" where
  "pinch_frame d = hand (pt (0.5 - d) 0.5) (pt 0.5 0.5) (pt (0.5 - d) 0.9)"

subsection \<open>The velocity estimator as the specification words it\<close>

text \<open>
  The reference sample is the earliest sample whose timestamp is at or after
  \<open>latest.t - 0.1\<close>. The latest sample itself qualifies, so the search finds one in
  every trail that is not empty.
\<close>

definition calc_vel_spec :: "sample list \<Rightarrow> real" where
  "calc_vel_spec tr =
     (if length tr < 3 then 0
      else
        case find (\<lambda>p. snd (snd (last tr)) - 0.1 \<le> snd (snd p)) tr of
          None \<Rightarrow> 0
        | Some (x0, y0, t0) \<Rightarrow>
            let (x1, y1, t1) = last tr;
                dt = t1 - t0
            in if dt < 0.01 then 0
               else sqrt ((x1 - x0)\<^sup>2 + (y1 - y0)\<^sup>2) * (0.1 / dt))"

text \<open>A trail sampled every 33 ms: the point rests for one frame, then moves 0.02 per frame.\<close>

definition moving_trail :: "sample list" where
  "moving_trail =
     [(0.50, 0.5, 1.000), (0.50, 0.5, 1.033), (0.52, 0.5, 1.066), (0.54, 0.5, 1.099),
      (0.56, 0.5, 1.132)]"

text \<open>A hand within the unit square whose thumb is further than 1 from both finger tips.\<close>

definition far_hand :: "landmark list" where
  "far_hand = hand (pt 0 0) (pt 0.123456 1) (pt 1 1)"

text \<open>A landmark list cut off after index 12.\<close>

definition short_hand :: "landmark list" where
  "short_hand = take 13 open_hand"

text \<open>The length of the path through a sequence of tracked points.\<close>

fun path_len :: "(real \<times> real) list \<Rightarrow> real" where
  "path_len (p # q # ps) = sqrt ((fst q - fst p)\<^sup>2 + (snd q - snd p)\<^sup>2) + path_len (q # ps)"
| "path_len ps = 0"

text \<open>An engine that entered an index pinch at time 1 and has moved 0.03 since.\<close>

definition holding :: engine where
  "holding =
     init_engine\<lparr> state := S_IDX_PINCH, idx_pinched := True, pinch_t0 := 1,
                  prev_palm := Some (0.44, 0.5), cum_move := 0.03,
                  trail := [(0.44, 0.5, 1)], gtype := ''pinch_hold'', gstate := ''start'' \<rparr>"

section \<open>Properties\<close>

subsection \<open>Basic facts about one frame\<close>

lemma sense_kept [simp]:
  "state (sense s th ix md now) = state s"
  "pinch_t0 (sense s th ix md now) = pinch_t0 s"
  "dur_ms (sense s th ix md now) = dur_ms s"
  "prev_palm (sense s th ix md now) = prev_palm s"
  "cum_move (sense s th ix md now) = cum_move s"
  "moved (sense s th ix md now) = moved s"
  "vel (sense s th ix md now) = vel s"
  "tap_count (sense s th ix md now) = tap_count s"
  "dbl_cooldown_until (sense s th ix md now) = dbl_cooldown_until s"
  "gtype (sense s th ix md now) = gtype s"
  "gstate (sense s th ix md now) = gstate s"
  by (simp_all add: sense_def Let_def)

lemma sense_set [simp]:
  "cursor_x (sense s th ix md now) = lm_x ix"
  "cursor_y (sense s th ix md now) = lm_y ix"
  "idx_dist (sense s th ix md now) = dist_lm th ix"
  "mid_dist (sense s th ix md now) = dist_lm th md"
  "idx_pinched (sense s th ix md now) = new_pinched (dist_lm th ix) (idx_pinched s)"
  "mid_pinched (sense s th ix md now) = new_pinched (dist_lm th md) (mid_pinched s)"
  "trail (sense s th ix md now) = trail_append (trail s) (lm_x ix, lm_y ix, now)"
  "frame_dx (sense s th ix md now) = 0"
  "frame_dy (sense s th ix md now) = 0"
  by (simp_all add: sense_def Let_def new_pinched_def config_defs)

lemma calc_vel_total: "\<exists>v. calc_vel tr = Inr v"
  by (auto simp: calc_vel_def Let_def split: prod.splits)

lemma machine_total: "\<exists>s'. machine t ix iy now = Inr s'"
proof -
  obtain v where "calc_vel (trail t) = Inr v"
    using calc_vel_total by blast
  then show ?thesis
    by (simp add: machine_def idx_branch_def idx_release_def Let_def)
qed

lemma payload_ok:
  assumes "INDEX_TIP < length lm"
  shows "\<exists>ev. payload s lm = Inr ev \<and> ev_type ev = gtype s \<and> ev_state ev = gstate s
           \<and> confidence ev = 1 - min (idx_dist s) (mid_dist s)
           \<and> cursor ev = (py_round (cursor_x s) 5, py_round (cursor_y s) 5)
           \<and> duration_ms ev = py_round (dur_ms s) 1
           \<and> ev_tap_count ev = tap_count s
           \<and> length (landmarks ev) = length lm"
  using assms by (simp add: payload_def payload_dict_def lm_get_def)

text \<open>A frame with the three finger tips present always yields an engine and an event.\<close>

lemma update_step:
  assumes "MIDDLE_TIP < length lm"
  shows "\<exists>s' ev. update s lm now = Inr (s', ev)
           \<and> machine (sense s (lm ! THUMB_TIP) (lm ! INDEX_TIP) (lm ! MIDDLE_TIP) now)
               (fst (tip lm)) (snd (tip lm)) now = Inr s'
           \<and> ev_type ev = gtype s' \<and> ev_state ev = gstate s'
           \<and> confidence ev = 1 - min (idx_dist s') (mid_dist s')
           \<and> cursor ev = (py_round (cursor_x s') 5, py_round (cursor_y s') 5)
           \<and> duration_ms ev = py_round (dur_ms s') 1
           \<and> ev_tap_count ev = tap_count s'
           \<and> length (landmarks ev) = length lm"
proof -
  let ?t = "sense s (lm ! THUMB_TIP) (lm ! INDEX_TIP) (lm ! MIDDLE_TIP) now"
  from assms have len: "INDEX_TIP < length lm" "THUMB_TIP < length lm"
    by (simp_all add: tip_defs)
  obtain s' where m: "machine ?t (fst (tip lm)) (snd (tip lm)) now = Inr s'"
    using machine_total by blast
  from payload_ok [OF len(1), of s'] obtain ev where p: "payload s' lm = Inr ev"
    and f: "ev_type ev = gtype s'" "ev_state ev = gstate s'"
      "confidence ev = 1 - min (idx_dist s') (mid_dist s')"
      "cursor ev = (py_round (cursor_x s') 5, py_round (cursor_y s') 5)"
      "duration_ms ev = py_round (dur_ms s') 1"
      "ev_tap_count ev = tap_count s'"
      "length (landmarks ev) = length lm"
    by blast
  have "update s lm now = Inr (s', ev)"
    using assms len m p by (simp add: update_def lm_get_def tip_def)
  with m f show ?thesis by blast
qed

lemma update_short: "length lm \<le> MIDDLE_TIP \<Longrightarrow> update s lm now = Inl IndexError"
  by (auto simp: update_def lm_get_def tip_defs split: sum.splits)

text \<open>The state machine, branch by branch, on the engine that \<open>sense\<close> has prepared.\<close>

lemma machine_idle_mid:
  "state t = S_IDLE \<Longrightarrow> mid_pinched t \<Longrightarrow>
   machine t ix iy now = Inr (enter_mid_pinch (t\<lparr>gtype := ''none'', gstate := ''idle''\<rparr>) now)"
  by (simp add: machine_def idle_branch_def)

lemma machine_idle_idx:
  "state t = S_IDLE \<Longrightarrow> \<not> mid_pinched t \<Longrightarrow> idx_pinched t \<Longrightarrow> dbl_cooldown_until t < now \<Longrightarrow>
   machine t ix iy now = Inr (enter_idx_pinch (t\<lparr>gtype := ''none'', gstate := ''idle''\<rparr>) now ix iy)"
  by (simp add: machine_def idle_branch_def)

lemma machine_idle_stay:
  "state t = S_IDLE \<Longrightarrow> \<not> mid_pinched t \<Longrightarrow> \<not> (idx_pinched t \<and> dbl_cooldown_until t < now) \<Longrightarrow>
   machine t ix iy now = Inr (t\<lparr>gtype := ''none'', gstate := ''idle''\<rparr>)"
  by (auto simp: machine_def idle_branch_def Let_def)

lemma machine_mid_hold:
  "state t = S_MID_PINCH \<Longrightarrow> mid_pinched t \<Longrightarrow>
   machine t ix iy now =
     Inr (t\<lparr>dur_ms := (now - pinch_t0 t) * 1000, gtype := ''double_tap'', gstate := ''start''\<rparr>)"
  by (simp add: machine_def mid_branch_def)

lemma machine_mid_tap:
  "state t = S_MID_PINCH \<Longrightarrow> \<not> mid_pinched t \<Longrightarrow> (now - pinch_t0 t) * 1000 < 200 \<Longrightarrow>
   machine t ix iy now =
     Inr (t\<lparr>dur_ms := (now - pinch_t0 t) * 1000, gtype := ''double_tap'', gstate := ''end'',
            tap_count := 2, flash_label := ''DOUBLE TAP'', flash_until := now + 0.6,
            dbl_cooldown_until := now + DOUBLE_TAP_COOL, state := S_IDLE\<rparr>)"
  by (simp add: machine_def mid_branch_def flash_def TAP_MAX_TIME_def)

lemma machine_mid_long:
  "state t = S_MID_PINCH \<Longrightarrow> \<not> mid_pinched t \<Longrightarrow> \<not> (now - pinch_t0 t) * 1000 < 200 \<Longrightarrow>
   machine t ix iy now =
     Inr (t\<lparr>dur_ms := (now - pinch_t0 t) * 1000, gtype := ''none'', gstate := ''idle'',
            state := S_IDLE\<rparr>)"
  by (simp add: machine_def mid_branch_def flash_def TAP_MAX_TIME_def)

lemma machine_idx_track:
  "state t = S_IDX_PINCH \<Longrightarrow> idx_pinched t \<Longrightarrow>
   machine t ix iy now = Inr (idx_track (t\<lparr>dur_ms := (now - pinch_t0 t) * 1000\<rparr>) ix iy)"
  by (simp add: machine_def idx_branch_def)

lemma machine_idx_release:
  "state t = S_IDX_PINCH \<Longrightarrow> \<not> idx_pinched t \<Longrightarrow>
   machine t ix iy now = idx_release (t\<lparr>dur_ms := (now - pinch_t0 t) * 1000\<rparr>) now"
  by (simp add: machine_def idx_branch_def)


lemma idx_release_eq:
  assumes "calc_vel (trail t) = Inr v"
  shows "idx_release t now =
     Inr (if moved t \<and> FLICK_VELOCITY < v
          then t\<lparr>vel := v, gtype := ''pinch_flick'', gstate := ''end'', flash_label := ''FLICK'',
                 flash_until := now + 0.6, prev_palm := None, cum_move := 0, moved := False,
                 state := S_IDLE\<rparr>
          else if dur_ms t / 1000 < TAP_MAX_TIME \<and> \<not> moved t
          then t\<lparr>vel := v, gtype := ''tap'', gstate := ''end'', tap_count := 1,
                 flash_label := ''TAP'', flash_until := now + 0.6, prev_palm := None,
                 cum_move := 0, moved := False, state := S_IDLE\<rparr>
          else if moved t
          then t\<lparr>vel := v, gtype := ''pinch_drag'', gstate := ''end'', prev_palm := None,
                 cum_move := 0, moved := False, state := S_IDLE\<rparr>
          else t\<lparr>vel := v, gtype := ''pinch_hold'', gstate := ''end'', prev_palm := None,
                 cum_move := 0, moved := False, state := S_IDLE\<rparr>)"
  using assms by (simp add: idx_release_def Let_def flash_def reset_pinch_def)

subsection \<open>Release of the index pinch\<close>

text \<open>
  Claim C1. When the index pinch is released (the engine is in \<open>S_IDX_PINCH\<close> and the
  index flag of the frame is off), \<open>update\<close> returns an event and the engine is back in
  \<open>S_IDLE\<close>. With \<open>v\<close> the windowed velocity of the trail including the frame's sample,
  the classification is decided in this order: moved and \<open>v > 0.30\<close> gives
  \<open>(pinch_flick, end)\<close>, whatever the duration, and never \<open>(pinch_drag, end)\<close>; else a
  duration below 200 ms without movement gives \<open>(tap, end)\<close>; else movement gives
  \<open>(pinch_drag, end)\<close>; else \<open>(pinch_hold, end)\<close>.
\<close>

theorem release_classification:
  assumes "state s = S_IDX_PINCH" and "MIDDLE_TIP < length lm"
    and "\<not> new_pinched (idx_d lm) (idx_pinched s)"
  shows "\<exists>s' ev v. update s lm now = Inr (s', ev)
           \<and> calc_vel (trail_append (trail s) (fst (tip lm), snd (tip lm), now)) = Inr v
           \<and> vel s' = v
           \<and> state s' = S_IDLE
           \<and> (ev_type ev, ev_state ev) =
               (if moved s \<and> FLICK_VELOCITY < v then (''pinch_flick'', ''end'')
                else if (now - pinch_t0 s) * 1000 < 200 \<and> \<not> moved s then (''tap'', ''end'')
                else if moved s then (''pinch_drag'', ''end'')
                else (''pinch_hold'', ''end''))
           \<and> (moved s \<and> FLICK_VELOCITY < v \<longrightarrow> (ev_type ev, ev_state ev) \<noteq> (''pinch_drag'', ''end''))"
proof -
  let ?t = "sense s (lm ! THUMB_TIP) (lm ! INDEX_TIP) (lm ! MIDDLE_TIP) now"
  let ?u = "?t\<lparr>dur_ms := (now - pinch_t0 ?t) * 1000\<rparr>"
  obtain v where v: "calc_vel (trail ?u) = Inr v"
    using calc_vel_total by blast
  from update_step [OF assms(2), of s now] obtain s' ev
    where u: "update s lm now = Inr (s', ev)"
      and m: "machine ?t (fst (tip lm)) (snd (tip lm)) now = Inr s'"
      and e: "ev_type ev = gtype s'" "ev_state ev = gstate s'"
    by blast
  have "machine ?t (fst (tip lm)) (snd (tip lm)) now = idx_release ?u now"
    using assms(1,3) by (simp add: machine_idx_release idx_d_def)
  with m have s': "idx_release ?u now = Inr s'" by simp
  have tr: "calc_vel (trail_append (trail s) (fst (tip lm), snd (tip lm), now)) = Inr v"
    using v by (simp add: tip_def)
  have "vel s' = v \<and> state s' = S_IDLE
      \<and> (gtype s', gstate s') =
               (if moved s \<and> FLICK_VELOCITY < v then (''pinch_flick'', ''end'')
                else if (now - pinch_t0 s) * 1000 < 200 \<and> \<not> moved s then (''tap'', ''end'')
                else if moved s then (''pinch_drag'', ''end'')
                else (''pinch_hold'', ''end''))"
    using s' unfolding idx_release_eq [OF v]
    by (auto simp: TAP_MAX_TIME_def)
  with u tr e show ?thesis by auto
qed


lemma hand_nth [simp]:
  "length (hand th ix md) = 21"
  "hand th ix md ! THUMB_TIP = th"
  "hand th ix md ! INDEX_TIP = ix"
  "hand th ix md ! MIDDLE_TIP = md"
  "MIDDLE_TIP < 21"
  by (simp_all add: hand_def tip_defs Let_def)

lemma hand_meas [simp]:
  "idx_d (hand th ix md) = dist_lm th ix"
  "mid_d (hand th ix md) = dist_lm th md"
  "tip (hand th ix md) = (lm_x ix, lm_y ix)"
  by (simp_all add: idx_d_def mid_d_def tip_def)

lemma sqrt_less_iff: "0 < c \<Longrightarrow> sqrt v < c \<longleftrightarrow> v < c\<^sup>2"
  using real_sqrt_less_iff [of v "c\<^sup>2"] by simp

lemma less_sqrt_iff: "0 \<le> c \<Longrightarrow> c < sqrt v \<longleftrightarrow> c\<^sup>2 < v"
  using real_sqrt_less_iff [of "c\<^sup>2" v] by simp

lemma dist_pt: "dist_lm (pt a b) (pt c d) = sqrt ((a - c)\<^sup>2 + (b - d)\<^sup>2)"
  by (simp add: dist_lm_def pt_def)

lemma flicking_simps [simp]:
  "state flicking = S_IDX_PINCH" "idx_pinched flicking" "moved flicking"
  "pinch_t0 flicking = 0.5" "trail flicking = [(0.1, 0.5, 0.9), (0.3, 0.5, 0.95)]"
  by (simp_all add: flicking_def init_engine_def)

theorem release_classification_witness:
  "state flicking = S_IDX_PINCH
   \<and> MIDDLE_TIP < length (hand (pt 0.4 0.5) (pt 0.6 0.5) (pt 0.6 0.9))
   \<and> \<not> new_pinched (idx_d (hand (pt 0.4 0.5) (pt 0.6 0.5) (pt 0.6 0.9))) (idx_pinched flicking)
   \<and> (\<exists>s' ev. update flicking (hand (pt 0.4 0.5) (pt 0.6 0.5) (pt 0.6 0.9)) 1 = Inr (s', ev)
         \<and> state s' = S_IDLE \<and> vel s' = 1/2
         \<and> ev_type ev = ''pinch_flick'' \<and> ev_state ev = ''end'')"
proof -
  let ?lm = "hand (pt 0.4 0.5) (pt 0.6 0.5) (pt 0.6 0.9)"
  have h1: "state flicking = S_IDX_PINCH" by simp
  have h2: "MIDDLE_TIP < length ?lm" by simp
  have h3: "\<not> new_pinched (idx_d ?lm) (idx_pinched flicking)"
    by (simp add: new_pinched_def dist_pt less_sqrt_iff)
  have v: "calc_vel (trail_append (trail flicking) (fst (tip ?lm), snd (tip ?lm), 1)) = Inr (1/2)"
    by (simp add: trail_append_def calc_vel_def pt_def Let_def)
  from release_classification [OF h1 h2 h3, of 1] v h1 h2 h3 show ?thesis
    by (auto simp: FLICK_VELOCITY_def)
qed

lemma hands_wf [simp]:
  "MIDDLE_TIP < length open_hand" "MIDDLE_TIP < length idx_hand"
  "MIDDLE_TIP < length mid_hand" "MIDDLE_TIP < length both_hand"
  by (simp_all add: open_hand_def idx_hand_def mid_hand_def both_hand_def)

lemma hands_flags [simp]:
  "new_pinched (dist_lm (open_hand ! THUMB_TIP) (open_hand ! INDEX_TIP)) b = False"
  "new_pinched (dist_lm (open_hand ! THUMB_TIP) (open_hand ! MIDDLE_TIP)) b = False"
  "new_pinched (dist_lm (idx_hand ! THUMB_TIP) (idx_hand ! INDEX_TIP)) b = True"
  "new_pinched (dist_lm (idx_hand ! THUMB_TIP) (idx_hand ! MIDDLE_TIP)) b = False"
  "new_pinched (dist_lm (mid_hand ! THUMB_TIP) (mid_hand ! INDEX_TIP)) b = False"
  "new_pinched (dist_lm (mid_hand ! THUMB_TIP) (mid_hand ! MIDDLE_TIP)) b = True"
  "new_pinched (dist_lm (both_hand ! THUMB_TIP) (both_hand ! INDEX_TIP)) b = True"
  "new_pinched (dist_lm (both_hand ! THUMB_TIP) (both_hand ! MIDDLE_TIP)) b = True"
  by (simp_all add: open_hand_def idx_hand_def mid_hand_def both_hand_def new_pinched_def
      dist_pt)

lemma hands_tip [simp]:
  "tip open_hand = (0.6, 0.5)" "tip idx_hand = (0.5, 0.5)"
  "tip mid_hand = (0.5, 0.5)" "tip both_hand = (0.52, 0.5)"
  by (simp_all add: open_hand_def idx_hand_def mid_hand_def both_hand_def pt_def)

lemma payload_dict_simps [simp]:
  "ev_type (payload_dict s lm tp) = gtype s"
  "ev_state (payload_dict s lm tp) = gstate s"
  "ev_tap_count (payload_dict s lm tp) = tap_count s"
  "duration_ms (payload_dict s lm tp) = py_round (dur_ms s) 1"
  "confidence (payload_dict s lm tp) = 1 - min (idx_dist s) (mid_dist s)"
  "cursor (payload_dict s lm tp) = (py_round (cursor_x s) 5, py_round (cursor_y s) 5)"
  by (simp_all add: payload_dict_def)

lemma update_eq:
  assumes "MIDDLE_TIP < length lm"
    and "machine (sense s (lm ! THUMB_TIP) (lm ! INDEX_TIP) (lm ! MIDDLE_TIP) now)
                        (fst (tip lm)) (snd (tip lm)) now = Inr s'"
  shows "update s lm now = Inr (s', payload_dict s' lm (lm ! INDEX_TIP))"
  using assms by (simp add: update_def lm_get_def tip_defs tip_def payload_def)

lemma run_frames_step:
  "update s lm now = Inr (s', ev) \<Longrightarrow>
   run_frames s ((lm, now) # fs) = map_sum id ((#) (s', ev)) (run_frames s' fs)"
  by (simp split: sum.splits)

declare idx_d_def [simp] mid_d_def [simp]

lemma step_idle_mid:
  assumes "state s = S_IDLE" "MIDDLE_TIP < length lm" "new_pinched (mid_d lm) (mid_pinched s)"
  shows "update s lm now =
     Inr (enter_mid_pinch ((sensed s lm now)\<lparr>gtype := ''none'', gstate := ''idle''\<rparr>) now,
          ev_of (enter_mid_pinch ((sensed s lm now)\<lparr>gtype := ''none'', gstate := ''idle''\<rparr>) now) lm)"
  using assms by (intro update_eq) (simp_all add: machine_idle_mid)

lemma step_idle_idx:
  assumes "state s = S_IDLE" "MIDDLE_TIP < length lm" "\<not> new_pinched (mid_d lm) (mid_pinched s)"
    "new_pinched (idx_d lm) (idx_pinched s)" "dbl_cooldown_until s < now"
  shows "update s lm now =
     Inr (enter_idx_pinch ((sensed s lm now)\<lparr>gtype := ''none'', gstate := ''idle''\<rparr>) now
            (fst (tip lm)) (snd (tip lm)),
          ev_of (enter_idx_pinch ((sensed s lm now)\<lparr>gtype := ''none'', gstate := ''idle''\<rparr>) now
            (fst (tip lm)) (snd (tip lm))) lm)"
  using assms by (intro update_eq) (simp_all add: machine_idle_idx)

lemma step_idle_stay:
  assumes "state s = S_IDLE" "MIDDLE_TIP < length lm" "\<not> new_pinched (mid_d lm) (mid_pinched s)"
    "\<not> (new_pinched (idx_d lm) (idx_pinched s) \<and> dbl_cooldown_until s < now)"
  shows "update s lm now =
     Inr ((sensed s lm now)\<lparr>gtype := ''none'', gstate := ''idle''\<rparr>,
          ev_of ((sensed s lm now)\<lparr>gtype := ''none'', gstate := ''idle''\<rparr>) lm)"
  using assms by (intro update_eq) (simp_all add: machine_idle_stay)

lemma step_mid_hold:
  assumes "state s = S_MID_PINCH" "MIDDLE_TIP < length lm" "new_pinched (mid_d lm) (mid_pinched s)"
  shows "update s lm now =
     Inr ((sensed s lm now)\<lparr>dur_ms := (now - pinch_t0 s) * 1000, gtype := ''double_tap'',
            gstate := ''start''\<rparr>,
          ev_of ((sensed s lm now)\<lparr>dur_ms := (now - pinch_t0 s) * 1000, gtype := ''double_tap'',
            gstate := ''start''\<rparr>) lm)"
  using assms by (intro update_eq) (simp_all add: machine_mid_hold)

lemma step_mid_tap:
  assumes "state s = S_MID_PINCH" "MIDDLE_TIP < length lm" "\<not> new_pinched (mid_d lm) (mid_pinched s)"
    "(now - pinch_t0 s) * 1000 < 200"
  shows "update s lm now =
     Inr ((sensed s lm now)\<lparr>dur_ms := (now - pinch_t0 s) * 1000, gtype := ''double_tap'',
            gstate := ''end'', tap_count := 2, flash_label := ''DOUBLE TAP'',
            flash_until := now + 0.6, dbl_cooldown_until := now + DOUBLE_TAP_COOL,
            state := S_IDLE\<rparr>,
          ev_of ((sensed s lm now)\<lparr>dur_ms := (now - pinch_t0 s) * 1000, gtype := ''double_tap'',
            gstate := ''end'', tap_count := 2, flash_label := ''DOUBLE TAP'',
            flash_until := now + 0.6, dbl_cooldown_until := now + DOUBLE_TAP_COOL,
            state := S_IDLE\<rparr>) lm)"
  using assms by (intro update_eq) (simp_all add: machine_mid_tap)

lemma step_mid_long:
  assumes "state s = S_MID_PINCH" "MIDDLE_TIP < length lm" "\<not> new_pinched (mid_d lm) (mid_pinched s)"
    "\<not> (now - pinch_t0 s) * 1000 < 200"
  shows "update s lm now =
     Inr ((sensed s lm now)\<lparr>dur_ms := (now - pinch_t0 s) * 1000, gtype := ''none'',
            gstate := ''idle'', state := S_IDLE\<rparr>,
          ev_of ((sensed s lm now)\<lparr>dur_ms := (now - pinch_t0 s) * 1000, gtype := ''none'',
            gstate := ''idle'', state := S_IDLE\<rparr>) lm)"
  using assms by (intro update_eq) (simp_all add: machine_mid_long)

lemma step_idx_track:
  assumes "state s = S_IDX_PINCH" "MIDDLE_TIP < length lm" "new_pinched (idx_d lm) (idx_pinched s)"
  shows "update s lm now =
     Inr (idx_track ((sensed s lm now)\<lparr>dur_ms := (now - pinch_t0 s) * 1000\<rparr>)
            (fst (tip lm)) (snd (tip lm)),
          ev_of (idx_track ((sensed s lm now)\<lparr>dur_ms := (now - pinch_t0 s) * 1000\<rparr>)
            (fst (tip lm)) (snd (tip lm))) lm)"
  using assms by (intro update_eq) (simp_all add: machine_idx_track)

subsection \<open>The middle pinch\<close>

text \<open>
  Claim C4. From \<open>S_IDLE\<close>, a frame whose middle flag is on enters \<open>S_MID_PINCH\<close> with
  \<open>(double_tap, start)\<close>, whatever the index flag of that frame. At the release of the
  middle pinch the engine returns to \<open>S_IDLE\<close>: a duration below 200 ms gives
  \<open>(double_tap, end)\<close> with tap count 2 and the cooldown deadline \<open>now + 0.3\<close>; a longer one
  gives \<open>(none, idle)\<close> and leaves the deadline as it was.
\<close>

theorem middle_pinch:
  assumes "MIDDLE_TIP < length lm"
  shows "(state s = S_IDLE \<and> new_pinched (mid_d lm) (mid_pinched s) \<longrightarrow>
            (\<exists>s' ev. update s lm now = Inr (s', ev) \<and> state s' = S_MID_PINCH \<and> pinch_t0 s' = now
               \<and> (ev_type ev, ev_state ev) = (''double_tap'', ''start'')))
       \<and> (state s = S_MID_PINCH \<and> \<not> new_pinched (mid_d lm) (mid_pinched s) \<longrightarrow>
            (\<exists>s' ev. update s lm now = Inr (s', ev) \<and> state s' = S_IDLE
               \<and> (if (now - pinch_t0 s) * 1000 < 200
                   then (ev_type ev, ev_state ev) = (''double_tap'', ''end'')
                        \<and> tap_count s' = 2 \<and> ev_tap_count ev = 2
                        \<and> dbl_cooldown_until s' = now + 0.3
                   else (ev_type ev, ev_state ev) = (''none'', ''idle'')
                        \<and> dbl_cooldown_until s' = dbl_cooldown_until s)))"
proof (intro conjI impI)
  assume "state s = S_IDLE \<and> new_pinched (mid_d lm) (mid_pinched s)"
  with assms show "\<exists>s' ev. update s lm now = Inr (s', ev) \<and> state s' = S_MID_PINCH
      \<and> pinch_t0 s' = now \<and> (ev_type ev, ev_state ev) = (''double_tap'', ''start'')"
    by (simp add: step_idle_mid enter_mid_pinch_def)
next
  assume a: "state s = S_MID_PINCH \<and> \<not> new_pinched (mid_d lm) (mid_pinched s)"
  show "\<exists>s' ev. update s lm now = Inr (s', ev) \<and> state s' = S_IDLE
               \<and> (if (now - pinch_t0 s) * 1000 < 200
                   then (ev_type ev, ev_state ev) = (''double_tap'', ''end'')
                        \<and> tap_count s' = 2 \<and> ev_tap_count ev = 2
                        \<and> dbl_cooldown_until s' = now + 0.3
                   else (ev_type ev, ev_state ev) = (''none'', ''idle'')
                        \<and> dbl_cooldown_until s' = dbl_cooldown_until s)"
  proof (cases "(now - pinch_t0 s) * 1000 < 200")
    case True
    with a assms show ?thesis
      by (simp add: step_mid_tap DOUBLE_TAP_COOL_def)
  next
    case False
    with a assms show ?thesis
      by (simp add: step_mid_long)
  qed
qed

lemma mid_pinching_simps [simp]:
  "state mid_pinching = S_MID_PINCH" "pinch_t0 mid_pinching = 1"
  "dbl_cooldown_until mid_pinching = 0" "mid_pinched mid_pinching"
  by (simp_all add: mid_pinching_def init_engine_def)

lemma init_engine_simps [simp]:
  "state init_engine = S_IDLE" "dbl_cooldown_until init_engine = 0"
  "\<not> idx_pinched init_engine" "\<not> mid_pinched init_engine" "tap_count init_engine = 0"
  "dur_ms init_engine = 0"
  by (simp_all add: init_engine_def)

theorem middle_pinch_witness:
  "MIDDLE_TIP < length both_hand
   \<and> state init_engine = S_IDLE \<and> new_pinched (mid_d both_hand) (mid_pinched init_engine)
   \<and> new_pinched (idx_d both_hand) (idx_pinched init_engine)
   \<and> (\<exists>s' ev. update init_engine both_hand 1 = Inr (s', ev) \<and> state s' = S_MID_PINCH
         \<and> (ev_type ev, ev_state ev) = (''double_tap'', ''start''))
   \<and> MIDDLE_TIP < length open_hand
   \<and> state mid_pinching = S_MID_PINCH \<and> \<not> new_pinched (mid_d open_hand) (mid_pinched mid_pinching)
   \<and> (\<exists>s' ev. update mid_pinching open_hand 1.1 = Inr (s', ev) \<and> state s' = S_IDLE
         \<and> (ev_type ev, ev_state ev) = (''double_tap'', ''end'')
         \<and> ev_tap_count ev = 2 \<and> dbl_cooldown_until s' = 1.4)
   \<and> (\<exists>s' ev. update mid_pinching open_hand 1.6 = Inr (s', ev) \<and> state s' = S_IDLE
         \<and> (ev_type ev, ev_state ev) = (''none'', ''idle'')
         \<and> dbl_cooldown_until s' = 0)"
  using middle_pinch [of both_hand init_engine 1] middle_pinch [of open_hand mid_pinching "1.1"]
    middle_pinch [of open_hand mid_pinching "1.6"]
  by (simp; blast)

subsection \<open>The cooldown after a double tap\<close>

text \<open>
  While the clock has not passed a deadline that the cooldown has reached, no frame takes
  the engine into the index pinch, and a further double tap only moves the cooldown on.
\<close>

lemma cooldown_step:
  assumes "state s \<noteq> S_IDX_PINCH" and "D \<le> dbl_cooldown_until s" and "MIDDLE_TIP < length lm"
    and "now \<le> D" and "D \<le> now + 0.3"
  shows "\<exists>s' ev. update s lm now = Inr (s', ev) \<and> state s' \<noteq> S_IDX_PINCH
           \<and> D \<le> dbl_cooldown_until s' \<and> ev_type ev \<in> {''none'', ''double_tap''}"
proof (cases "state s")
  case S_IDLE
  show ?thesis
  proof (cases "new_pinched (mid_d lm) (mid_pinched s)")
    case True
    with S_IDLE assms show ?thesis
      by (simp add: step_idle_mid enter_mid_pinch_def)
  next
    case False
    with S_IDLE assms show ?thesis
      by (simp add: step_idle_stay)
  qed
next
  case S_IDX_PINCH
  with assms show ?thesis by simp
next
  case S_MID_PINCH
  show ?thesis
  proof (cases "new_pinched (mid_d lm) (mid_pinched s)")
    case True
    with S_MID_PINCH assms show ?thesis
      by (simp add: step_mid_hold)
  next
    case False
    show ?thesis
    proof (cases "(now - pinch_t0 s) * 1000 < 200")
      case True
      with False S_MID_PINCH assms show ?thesis
        by (simp add: step_mid_tap DOUBLE_TAP_COOL_def)
    next
      case short: False
      with False S_MID_PINCH assms show ?thesis
        by (simp add: step_mid_long)
    qed
  qed
qed

lemma cooldown_run:
  assumes "\<forall>f \<in> set fs. MIDDLE_TIP < length (fst f) \<and> snd f \<le> D \<and> D \<le> snd f + 0.3"
    and "state s \<noteq> S_IDX_PINCH" and "D \<le> dbl_cooldown_until s"
  shows "\<exists>tr. run_frames s fs = Inr tr \<and> length tr = length fs
           \<and> (\<forall>r \<in> set tr. state (fst r) \<noteq> S_IDX_PINCH
                 \<and> ev_type (snd r) \<in> {''none'', ''double_tap''})"
  using assms
proof (induction fs arbitrary: s)
  case Nil
  then show ?case by simp
next
  case (Cons f fs)
  obtain lm now where f: "f = (lm, now)" by (cases f)
  with Cons.prems have wf: "MIDDLE_TIP < length lm" "now \<le> D" "D \<le> now + 0.3"
    by simp_all
  from cooldown_step [OF Cons.prems(2,3) wf] obtain s' ev
    where u: "update s lm now = Inr (s', ev)" and s': "state s' \<noteq> S_IDX_PINCH"
      "D \<le> dbl_cooldown_until s'" and ev: "ev_type ev \<in> {''none'', ''double_tap''}"
    by blast
  from Cons.prems(1) have "\<forall>f \<in> set fs. MIDDLE_TIP < length (fst f) \<and> snd f \<le> D \<and> D \<le> snd f + 0.3"
    by simp
  from Cons.IH [OF this s'] obtain tr where tr: "run_frames s' fs = Inr tr"
    "length tr = length fs"
    "\<forall>r \<in> set tr. state (fst r) \<noteq> S_IDX_PINCH \<and> ev_type (snd r) \<in> {''none'', ''double_tap''}"
    by blast
  have "run_frames s (f # fs) = Inr ((s', ev) # tr)"
    using u tr(1) f by simp
  with tr s' ev show ?case by simp
qed

text \<open>
  Claim C2, as the code has it. A double-tap release at time \<open>t\<close> sets the cooldown
  deadline to \<open>t + 0.3\<close> and leaves the engine in \<open>S_IDLE\<close>. In the next frame, with the
  index flag on and the middle flag off, the engine enters \<open>S_IDX_PINCH\<close> exactly when
  \<open>now\<close> is strictly later than the deadline; at the deadline itself and before it the
  engine stays in \<open>S_IDLE\<close> and emits \<open>(none, idle)\<close>. Over any run of frames whose clock
  lies between \<open>t\<close> and the deadline the engine never is in \<open>S_IDX_PINCH\<close>.
\<close>

theorem cooldown_gate:
  assumes "state s = S_MID_PINCH" and "MIDDLE_TIP < length lm"
    and "\<not> new_pinched (mid_d lm) (mid_pinched s)" and "(t - pinch_t0 s) * 1000 < 200"
  shows "\<exists>s1 ev1. update s lm t = Inr (s1, ev1)
           \<and> (ev_type ev1, ev_state ev1) = (''double_tap'', ''end'')
           \<and> state s1 = S_IDLE \<and> dbl_cooldown_until s1 = t + 0.3
           \<and> (\<forall>lm' now. MIDDLE_TIP < length lm' \<and> new_pinched (idx_d lm') (idx_pinched s1)
                  \<and> \<not> new_pinched (mid_d lm') (mid_pinched s1) \<longrightarrow>
                (\<exists>s2 ev2. update s1 lm' now = Inr (s2, ev2)
                   \<and> (if t + 0.3 < now
                       then state s2 = S_IDX_PINCH \<and> pinch_t0 s2 = now
                            \<and> (ev_type ev2, ev_state ev2) = (''pinch_hold'', ''start'')
                       else state s2 = S_IDLE
                            \<and> (ev_type ev2, ev_state ev2) = (''none'', ''idle''))))
           \<and> (\<forall>fs. (\<forall>f \<in> set fs. MIDDLE_TIP < length (fst f) \<and> t \<le> snd f \<and> snd f \<le> t + 0.3) \<longrightarrow>
                (\<exists>tr. run_frames s1 fs = Inr tr \<and> length tr = length fs
                   \<and> (\<forall>r \<in> set tr. state (fst r) \<noteq> S_IDX_PINCH)))"
proof -
  let ?s1 = "(sensed s lm t)\<lparr>dur_ms := (t - pinch_t0 s) * 1000, gtype := ''double_tap'',
            gstate := ''end'', tap_count := 2, flash_label := ''DOUBLE TAP'',
            flash_until := t + 0.6, dbl_cooldown_until := t + DOUBLE_TAP_COOL,
            state := S_IDLE\<rparr>"
  have u: "update s lm t = Inr (?s1, ev_of ?s1 lm)"
    using assms by (rule step_mid_tap)
  have s1: "state ?s1 = S_IDLE" "dbl_cooldown_until ?s1 = t + 0.3"
    by (simp_all add: DOUBLE_TAP_COOL_def)
  have next_frame: "\<exists>s2 ev2. update ?s1 lm' now = Inr (s2, ev2)
                   \<and> (if t + 0.3 < now
                       then state s2 = S_IDX_PINCH \<and> pinch_t0 s2 = now
                            \<and> (ev_type ev2, ev_state ev2) = (''pinch_hold'', ''start'')
                       else state s2 = S_IDLE
                            \<and> (ev_type ev2, ev_state ev2) = (''none'', ''idle''))"
    if h: "MIDDLE_TIP < length lm' \<and> new_pinched (idx_d lm') (idx_pinched ?s1)
                  \<and> \<not> new_pinched (mid_d lm') (mid_pinched ?s1)" for lm' now
  proof (cases "t + 0.3 < now")
    case True
    then have "dbl_cooldown_until ?s1 < now" using s1(2) by simp
    from step_idle_idx [OF s1(1) _ _ _ this, of lm'] h True show ?thesis
      by (simp add: enter_idx_pinch_def)
  next
    case False
    then have "\<not> (new_pinched (idx_d lm') (idx_pinched ?s1) \<and> dbl_cooldown_until ?s1 < now)"
      using s1(2) by simp
    from step_idle_stay [OF s1(1) _ _ this] h False show ?thesis
      by simp
  qed
  have run: "\<exists>tr. run_frames ?s1 fs = Inr tr \<and> length tr = length fs
                   \<and> (\<forall>r \<in> set tr. state (fst r) \<noteq> S_IDX_PINCH)"
    if h: "\<forall>f \<in> set fs. MIDDLE_TIP < length (fst f) \<and> t \<le> snd f \<and> snd f \<le> t + 0.3" for fs
  proof -
    from h have "\<forall>f \<in> set fs. MIDDLE_TIP < length (fst f) \<and> snd f \<le> t + 0.3 \<and> t + 0.3 \<le> snd f + 0.3"
      by simp
    from cooldown_run [OF this, of ?s1] s1 show ?thesis
      by auto
  qed
  show ?thesis
    apply (rule exI [of _ ?s1], rule exI [of _ "ev_of ?s1 lm"])
    apply (intro conjI allI impI)
          apply (rule u)
         apply simp
        apply (rule s1)
       apply (rule s1)
     apply (erule next_frame)
    apply (erule run)
    done
qed


theorem cooldown_gate_witness:
  "state mid_pinching = S_MID_PINCH \<and> MIDDLE_TIP < length open_hand
   \<and> \<not> new_pinched (mid_d open_hand) (mid_pinched mid_pinching)
   \<and> (1.125 - pinch_t0 mid_pinching) * 1000 < 200
   \<and> (\<exists>s1 ev1. update mid_pinching open_hand 1.125 = Inr (s1, ev1)
         \<and> state s1 = S_IDLE \<and> dbl_cooldown_until s1 = 1.425
         \<and> MIDDLE_TIP < length idx_hand \<and> new_pinched (idx_d idx_hand) (idx_pinched s1)
         \<and> \<not> new_pinched (mid_d idx_hand) (mid_pinched s1)
         \<and> (\<exists>s2 ev2. update s1 idx_hand 1.5 = Inr (s2, ev2) \<and> state s2 = S_IDX_PINCH
               \<and> (ev_type ev2, ev_state ev2) = (''pinch_hold'', ''start''))
         \<and> (\<exists>s2 ev2. update s1 idx_hand 1.425 = Inr (s2, ev2) \<and> state s2 = S_IDLE
               \<and> (ev_type ev2, ev_state ev2) = (''none'', ''idle''))
         \<and> (\<forall>f \<in> set [(idx_hand, 1.25), (idx_hand, 1.425 :: real)].
               MIDDLE_TIP < length (fst f) \<and> 1.125 \<le> snd f \<and> snd f \<le> 1.125 + 0.3)
         \<and> (\<exists>tr. run_frames s1 [(idx_hand, 1.25), (idx_hand, 1.425)] = Inr tr \<and> length tr = 2
               \<and> (\<forall>r \<in> set tr. state (fst r) \<noteq> S_IDX_PINCH)))"
proof -
  have h: "state mid_pinching = S_MID_PINCH" "MIDDLE_TIP < length open_hand"
    "\<not> new_pinched (mid_d open_hand) (mid_pinched mid_pinching)"
    "(1.125 - pinch_t0 mid_pinching) * 1000 < 200"
    by simp_all
  from cooldown_gate [OF h] obtain s1 ev1
    where u: "update mid_pinching open_hand 1.125 = Inr (s1, ev1)"
      and s1: "state s1 = S_IDLE" "dbl_cooldown_until s1 = 1.125 + 0.3"
      and nf: "\<And>lm' now. MIDDLE_TIP < length lm' \<and> new_pinched (idx_d lm') (idx_pinched s1)
                  \<and> \<not> new_pinched (mid_d lm') (mid_pinched s1) \<Longrightarrow>
                (\<exists>s2 ev2. update s1 lm' now = Inr (s2, ev2)
                   \<and> (if 1.125 + 0.3 < now
                       then state s2 = S_IDX_PINCH \<and> pinch_t0 s2 = now
                            \<and> (ev_type ev2, ev_state ev2) = (''pinch_hold'', ''start'')
                       else state s2 = S_IDLE
                            \<and> (ev_type ev2, ev_state ev2) = (''none'', ''idle'')))"
      and rn: "\<And>fs. (\<forall>f \<in> set fs. MIDDLE_TIP < length (fst f) \<and> 1.125 \<le> snd f \<and> snd f \<le> 1.125 + 0.3) \<Longrightarrow>
                (\<exists>tr. run_frames s1 fs = Inr tr \<and> length tr = length fs
                   \<and> (\<forall>r \<in> set tr. state (fst r) \<noteq> S_IDX_PINCH))"
    by blast
  have g: "MIDDLE_TIP < length idx_hand \<and> new_pinched (idx_d idx_hand) (idx_pinched s1)
         \<and> \<not> new_pinched (mid_d idx_hand) (mid_pinched s1)"
    by simp
  have fs: "\<forall>f \<in> set [(idx_hand, 1.25), (idx_hand, 1.425::real)].
               MIDDLE_TIP < length (fst f) \<and> 1.125 \<le> snd f \<and> snd f \<le> 1.125 + 0.3"
    by simp
  from nf [OF g, of "1.5"]
  have a: "\<exists>s2 ev2. update s1 idx_hand 1.5 = Inr (s2, ev2) \<and> state s2 = S_IDX_PINCH
               \<and> (ev_type ev2, ev_state ev2) = (''pinch_hold'', ''start'')"
    by (simp; blast)
  from nf [OF g, of "1.425"]
  have b: "\<exists>s2 ev2. update s1 idx_hand 1.425 = Inr (s2, ev2) \<and> state s2 = S_IDLE
               \<and> (ev_type ev2, ev_state ev2) = (''none'', ''idle'')"
    by (simp; blast?)
  from rn [OF fs]
  have c: "\<exists>tr. run_frames s1 [(idx_hand, 1.25), (idx_hand, 1.425)] = Inr tr \<and> length tr = 2
               \<and> (\<forall>r \<in> set tr. state (fst r) \<noteq> S_IDX_PINCH)"
    by (auto simp del: run_frames.simps)
  from s1 have s1': "dbl_cooldown_until s1 = 1.425" by simp
  show ?thesis
    using h u s1(1) s1' g a b fs c by blast
qed

text \<open>
  The claim as written lets an index pinch in as soon as \<open>now \<ge> deadline\<close>. From a fresh
  engine: a middle pinch at time 1, its release at 1.125 (a double tap, deadline
  \<open>1.125 + 0.3 = 1.425\<close>, the same number in binary floating point), and an index pinch
  with the middle finger away at exactly 1.425. The engine stays in \<open>S_IDLE\<close> and the
  event is \<open>(none, idle)\<close>.
\<close>

theorem cooldown_boundary_counterexample:
  "map_sum id (map label)
     (run_frames init_engine [(mid_hand, 1), (open_hand, 1.125), (idx_hand, 1.425)])
   = Inr [(S_MID_PINCH, ''double_tap'', ''start''), (S_IDLE, ''double_tap'', ''end''),
          (S_IDLE, ''none'', ''idle'')]
   \<and> map_sum id (map (dbl_cooldown_until \<circ> fst))
     (run_frames init_engine [(mid_hand, 1), (open_hand, 1.125), (idx_hand, 1.425)])
   = Inr [0, 1.125 + DOUBLE_TAP_COOL, 1.125 + DOUBLE_TAP_COOL]
   \<and> idx_d idx_hand < PINCH_DIST \<and> PINCH_EXIT < mid_d idx_hand
   \<and> 1.125 + DOUBLE_TAP_COOL = (1.425 :: real)"
proof -
  let ?s1 = "enter_mid_pinch ((sensed init_engine mid_hand 1)\<lparr>gtype := ''none'', gstate := ''idle''\<rparr>) 1"
  have u1: "update init_engine mid_hand 1 = Inr (?s1, ev_of ?s1 mid_hand)"
    by (rule step_idle_mid) simp_all
  let ?s2 = "(sensed ?s1 open_hand 1.125)\<lparr>dur_ms := (1.125 - pinch_t0 ?s1) * 1000,
            gtype := ''double_tap'', gstate := ''end'', tap_count := 2,
            flash_label := ''DOUBLE TAP'', flash_until := 1.125 + 0.6,
            dbl_cooldown_until := 1.125 + DOUBLE_TAP_COOL, state := S_IDLE\<rparr>"
  have u2: "update ?s1 open_hand 1.125 = Inr (?s2, ev_of ?s2 open_hand)"
    by (rule step_mid_tap) (simp_all add: enter_mid_pinch_def)
  let ?s3 = "(sensed ?s2 idx_hand 1.425)\<lparr>gtype := ''none'', gstate := ''idle''\<rparr>"
  have u3: "update ?s2 idx_hand 1.425 = Inr (?s3, ev_of ?s3 idx_hand)"
    by (rule step_idle_stay) (simp_all add: DOUBLE_TAP_COOL_def)
  have r: "run_frames init_engine [(mid_hand, 1), (open_hand, 1.125), (idx_hand, 1.425)]
      = Inr [(?s1, ev_of ?s1 mid_hand), (?s2, ev_of ?s2 open_hand), (?s3, ev_of ?s3 idx_hand)]"
    by (simp only: run_frames.simps u1 u2 u3 sum.case prod.case)
  have m: "idx_d idx_hand < PINCH_DIST" "PINCH_EXIT < mid_d idx_hand"
    by (simp_all add: idx_hand_def dist_pt config_defs)
  show ?thesis
    unfolding r using m
    by (simp add: label_def enter_mid_pinch_def DOUBLE_TAP_COOL_def)
qed

subsection \<open>Hysteresis of the pinch flags\<close>

lemma machine_keeps_flags:
  assumes "machine t ix iy now = Inr s'"
  shows "idx_pinched s' = idx_pinched t \<and> mid_pinched s' = mid_pinched t"
proof -
  obtain v where v: "calc_vel (trail (t\<lparr>dur_ms := (now - pinch_t0 t) * 1000\<rparr>)) = Inr v"
    using calc_vel_total by blast
  show ?thesis
  proof (cases "state t")
    case S_IDLE
    with assms show ?thesis
      by (auto simp: machine_def idle_branch_def enter_mid_pinch_def enter_idx_pinch_def Let_def
          split: if_splits)
  next
    case S_IDX_PINCH
    with assms show ?thesis
      unfolding machine_def idx_branch_def Let_def idx_release_eq [OF v]
      by (auto simp: idx_track_def Let_def split: if_splits option.splits)
  next
    case S_MID_PINCH
    with assms show ?thesis
      by (auto simp: machine_def mid_branch_def flash_def Let_def split: if_splits)
  qed
qed

lemma update_flags:
  assumes "MIDDLE_TIP < length lm"
  shows "\<exists>s' ev. update s lm now = Inr (s', ev)
           \<and> idx_pinched s' = new_pinched (idx_d lm) (idx_pinched s)
           \<and> mid_pinched s' = new_pinched (mid_d lm) (mid_pinched s)"
proof -
  from update_step [OF assms, of s now] obtain s' ev
    where u: "update s lm now = Inr (s', ev)"
      and m: "machine (sensed s lm now) (fst (tip lm)) (snd (tip lm)) now = Inr s'"
    by blast
  from machine_keeps_flags [OF m] u show ?thesis by simp
qed

lemma run_flags:
  assumes "\<forall>f \<in> set fs. MIDDLE_TIP < length (fst f)"
  shows "\<exists>tr. run_frames s fs = Inr tr
           \<and> map (idx_pinched \<circ> fst) tr = flag_trace (idx_pinched s) (map (idx_d \<circ> fst) fs)
           \<and> map (mid_pinched \<circ> fst) tr = flag_trace (mid_pinched s) (map (mid_d \<circ> fst) fs)"
  using assms
proof (induction fs arbitrary: s)
  case Nil
  then show ?case by simp
next
  case (Cons f fs)
  obtain lm now where f: "f = (lm, now)" by (cases f)
  with Cons.prems have "MIDDLE_TIP < length lm" by simp
  from update_flags [OF this, of s now] obtain s' ev
    where u: "update s lm now = Inr (s', ev)"
      and fl: "idx_pinched s' = new_pinched (idx_d lm) (idx_pinched s)"
        "mid_pinched s' = new_pinched (mid_d lm) (mid_pinched s)"
    by blast
  from Cons.prems have "\<forall>f \<in> set fs. MIDDLE_TIP < length (fst f)" by simp
  from Cons.IH [OF this, of s'] obtain tr where tr: "run_frames s' fs = Inr tr"
    "map (idx_pinched \<circ> fst) tr = flag_trace (idx_pinched s') (map (idx_d \<circ> fst) fs)"
    "map (mid_pinched \<circ> fst) tr = flag_trace (mid_pinched s') (map (mid_d \<circ> fst) fs)"
    by blast
  have "run_frames s (f # fs) = Inr ((s', ev) # tr)"
    using u tr(1) f by simp
  moreover have "map (idx_pinched \<circ> fst) ((s', ev) # tr)
      = flag_trace (idx_pinched s) (map (idx_d \<circ> fst) (f # fs))"
    using tr(2) fl(1) f by (simp del: idx_d_def mid_d_def)
  moreover have "map (mid_pinched \<circ> fst) ((s', ev) # tr)
      = flag_trace (mid_pinched s) (map (mid_d \<circ> fst) (f # fs))"
    using tr(3) fl(2) f by (simp del: idx_d_def mid_d_def)
  ultimately show ?case by blast
qed

text \<open>A flag and a distance agree when the detector would leave the flag as it is.\<close>

lemma new_pinched_settled:
  "(new_pinched d p \<longrightarrow> d \<le> 0.05) \<and> (\<not> new_pinched d p \<longrightarrow> 0.04 \<le> d)"
  by (auto simp: new_pinched_def)

lemma noninc_changes:
  assumes "noninc (d0 # ds)" and "f \<longrightarrow> d0 \<le> 0.05" and "\<not> f \<longrightarrow> 0.04 \<le> d0"
  shows "changes (f # flag_trace f ds) \<le> (if f then 0 else 1)"
  using assms
proof (induction ds arbitrary: d0 f)
  case Nil
  then show ?case by simp
next
  case (Cons d ds)
  from Cons.prems(1) have le: "d \<le> d0" and ni: "noninc (d # ds)" by simp_all
  let ?g = "new_pinched d f"
  have g: "?g \<longrightarrow> d \<le> 0.05" "\<not> ?g \<longrightarrow> 0.04 \<le> d"
    using new_pinched_settled [of d f] by simp_all
  from Cons.IH [OF ni g] have ih: "changes (?g # flag_trace ?g ds) \<le> (if ?g then 0 else 1)" .
  show ?case
  proof (cases f)
    case True
    with le Cons.prems(2) have "?g" by (simp add: new_pinched_def)
    with True ih show ?thesis by simp
  next
    case False
    with ih show ?thesis by (cases ?g) simp_all
  qed
qed

lemma unimodal_changes:
  assumes "unimodal (d0 # ds)" and "f \<longrightarrow> d0 \<le> 0.05" and "\<not> f \<longrightarrow> 0.04 \<le> d0"
  shows "changes (f # flag_trace f ds) \<le> (if f then 2 else 1)"
  using assms
proof (induction ds arbitrary: d0 f)
  case Nil
  then show ?case by simp
next
  case (Cons d ds)
  let ?g = "new_pinched d f"
  have g: "?g \<longrightarrow> d \<le> 0.05" "\<not> ?g \<longrightarrow> 0.04 \<le> d"
    using new_pinched_settled [of d f] by simp_all
  show ?case
  proof (cases "d0 \<le> d")
    case True
    with Cons.prems(1) have "unimodal (d # ds)" by simp
    from Cons.IH [OF this g] have ih: "changes (?g # flag_trace ?g ds) \<le> (if ?g then 2 else 1)" .
    show ?thesis
    proof (cases f)
      case f: True
      with ih show ?thesis by (cases ?g) simp_all
    next
      case f: False
      with True Cons.prems(3) have "\<not> ?g" by (simp add: new_pinched_def)
      with f ih show ?thesis by simp
    qed
  next
    case False
    with Cons.prems(1) have "noninc (d # ds)" by simp
    from noninc_changes [OF this g] have ih: "changes (?g # flag_trace ?g ds) \<le> (if ?g then 0 else 1)" .
    show ?thesis
    proof (cases f)
      case f: True
      with False Cons.prems(2) have "?g" by (simp add: new_pinched_def)
      with f ih show ?thesis by simp
    next
      case f: False
      with ih show ?thesis by (cases ?g) simp_all
    qed
  qed
qed

lemma off_change_crosses:
  assumes "0.04 \<le> d0" and "1 \<le> changes (False # flag_trace False ds)"
  shows "1 \<le> crossings (\<lambda>d. d < 0.04) (d0 # ds)"
  using assms
proof (induction ds arbitrary: d0)
  case Nil
  then show ?case by simp
next
  case (Cons d ds)
  show ?case
  proof (cases "d < 0.04")
    case True
    with Cons.prems(1) show ?thesis by simp
  next
    case False
    then have g: "new_pinched d False = False" by (simp add: new_pinched_def)
    with Cons.prems(2) have "1 \<le> changes (False # flag_trace False ds)" by simp
    from Cons.IH [OF _ this, of d] False show ?thesis by simp
  qed
qed

lemma on_two_changes_cross:
  assumes "2 \<le> changes (True # flag_trace True ds)"
  shows "1 \<le> crossings (\<lambda>d. d < 0.04) (d0 # ds)"
  using assms
proof (induction ds arbitrary: d0)
  case Nil
  then show ?case by simp
next
  case (Cons d ds)
  show ?case
  proof (cases "0.05 < d")
    case True
    then have g: "new_pinched d True = False" by (simp add: new_pinched_def)
    with Cons.prems have "1 \<le> changes (False # flag_trace False ds)" by simp
    from off_change_crosses [OF _ this, of d] True show ?thesis by simp
  next
    case False
    then have g: "new_pinched d True = True" by (simp add: new_pinched_def)
    with Cons.prems have "2 \<le> changes (True # flag_trace True ds)" by simp
    from Cons.IH [OF this, of d] show ?thesis by simp
  qed
qed

lemma on_two_changes_cross_twice:
  assumes "d0 < 0.04" and "2 \<le> changes (True # flag_trace True ds)"
  shows "2 \<le> crossings (\<lambda>d. d < 0.04) (d0 # ds)"
  using assms
proof (induction ds arbitrary: d0)
  case Nil
  then show ?case by simp
next
  case (Cons d ds)
  show ?case
  proof (cases "0.05 < d")
    case True
    then have g: "new_pinched d True = False" by (simp add: new_pinched_def)
    with Cons.prems have "1 \<le> changes (False # flag_trace False ds)" by simp
    from off_change_crosses [OF _ this, of d] True Cons.prems(1) show ?thesis by simp
  next
    case False
    then have g: "new_pinched d True = True" by (simp add: new_pinched_def)
    with Cons.prems have c: "2 \<le> changes (True # flag_trace True ds)" by simp
    show ?thesis
    proof (cases "d < 0.04")
      case True
      from Cons.IH [OF True c] Cons.prems(1) True show ?thesis by simp
    next
      case d: False
      from on_two_changes_cross [OF c, of d] Cons.prems(1) d show ?thesis by simp
    qed
  qed
qed

lemma unimodal_trace_changes:
  assumes "unimodal ds"
  shows "changes (flag_trace p ds) \<le> 2"
proof (cases ds)
  case Nil
  then show ?thesis by simp
next
  case (Cons d ds')
  let ?g = "new_pinched d p"
  have g: "?g \<longrightarrow> d \<le> 0.05" "\<not> ?g \<longrightarrow> 0.04 \<le> d"
    using new_pinched_settled [of d p] by simp_all
  from assms Cons have "unimodal (d # ds')" by simp
  from unimodal_changes [OF this g] Cons show ?thesis
    by (simp split: if_splits)
qed

lemma unimodal_flag_changes:
  assumes "unimodal ds" and "crossings (\<lambda>d. d < 0.04) ds \<le> 1"
  shows "changes (p # flag_trace p ds) \<le> 2"
proof (cases ds)
  case Nil
  then show ?thesis by simp
next
  case (Cons d ds')
  let ?g = "new_pinched d p"
  have g: "?g \<longrightarrow> d \<le> 0.05" "\<not> ?g \<longrightarrow> 0.04 \<le> d"
    using new_pinched_settled [of d p] by simp_all
  from assms Cons have u: "unimodal (d # ds')" by simp
  from unimodal_changes [OF u g]
  have b: "changes (?g # flag_trace ?g ds') \<le> (if ?g then 2 else 1)" .
  show ?thesis
  proof (cases "?g = p")
    case True
    with b Cons show ?thesis by (simp split: if_splits)
  next
    case False
    show ?thesis
    proof (cases p)
      case p: True
      with False have "\<not> ?g" by simp
      with b p Cons show ?thesis by simp
    next
      case p: False
      with False have on: "?g" by simp
      with p have "d < 0.04" by (simp add: new_pinched_def split: if_splits)
      from on_two_changes_cross_twice [OF this, of ds'] assms(2) Cons
      have "\<not> 2 \<le> changes (True # flag_trace True ds')" by auto
      with on p Cons show ?thesis by simp
    qed
  qed
qed


text \<open>
  Claim C6. The detector changes a flag only at a threshold: an off flag turns on when the
  distance is below 0.04, an on flag turns off when it is above 0.05. In every frame
  \<open>update\<close> sets each of its two flags to the detector's value for the channel's distance
  and previous flag, so over a run the flags are the detector's trace of the distances.
  Along a distance sequence that first never falls and then never rises, the flag values
  after the samples change at most twice; counted from the flag before the first sample
  they change at most twice when the sequence crosses each threshold at most once.
\<close>

theorem hysteresis:
  "(new_pinched d p \<noteq> p \<longleftrightarrow> (\<not> p \<and> d < 0.04) \<or> (p \<and> 0.05 < d))
   \<and> ((\<forall>f \<in> set fs. MIDDLE_TIP < length (fst f)) \<longrightarrow>
        (\<exists>tr. run_frames s fs = Inr tr
           \<and> map (idx_pinched \<circ> fst) tr = flag_trace (idx_pinched s) (map (idx_d \<circ> fst) fs)
           \<and> map (mid_pinched \<circ> fst) tr = flag_trace (mid_pinched s) (map (mid_d \<circ> fst) fs)))
   \<and> (unimodal ds \<longrightarrow> changes (flag_trace p ds) \<le> 2)
   \<and> (unimodal ds \<and> crossings (\<lambda>d. d < 0.04) ds \<le> 1 \<and> crossings (\<lambda>d. 0.05 < d) ds \<le> 1 \<longrightarrow>
        changes (p # flag_trace p ds) \<le> 2)"
proof (intro conjI impI)
  show "new_pinched d p \<noteq> p \<longleftrightarrow> (\<not> p \<and> d < 0.04) \<or> (p \<and> 0.05 < d)"
    by (auto simp: new_pinched_def)
next
  assume "\<forall>f \<in> set fs. MIDDLE_TIP < length (fst f)"
  then show "\<exists>tr. run_frames s fs = Inr tr
           \<and> map (idx_pinched \<circ> fst) tr = flag_trace (idx_pinched s) (map (idx_d \<circ> fst) fs)
           \<and> map (mid_pinched \<circ> fst) tr = flag_trace (mid_pinched s) (map (mid_d \<circ> fst) fs)"
    by (rule run_flags)
next
  assume "unimodal ds"
  then show "changes (flag_trace p ds) \<le> 2"
    by (rule unimodal_trace_changes)
next
  assume "unimodal ds \<and> crossings (\<lambda>d. d < 0.04) ds \<le> 1 \<and> crossings (\<lambda>d. 0.05 < d) ds \<le> 1"
  then show "changes (p # flag_trace p ds) \<le> 2"
    using unimodal_flag_changes by blast
qed

lemma pinch_frame_dist [simp]:
  "dist_lm (pinch_frame d ! THUMB_TIP) (pinch_frame d ! INDEX_TIP) = \<bar>d\<bar>"
  "dist_lm (pinch_frame d ! THUMB_TIP) (pinch_frame d ! MIDDLE_TIP) = 2 / 5"
  by (simp_all add: pinch_frame_def dist_pt)

lemma pinch_frame_simps [simp]:
  "MIDDLE_TIP < length (pinch_frame d)"
  "tip (pinch_frame d) = (0.5, 0.5)"
  by (simp_all add: pinch_frame_def pt_def)

theorem hysteresis_witness:
  "MIDDLE_TIP < length (pinch_frame 0.02) \<and> MIDDLE_TIP < length (pinch_frame 0.045)
   \<and> MIDDLE_TIP < length (pinch_frame 0.10) \<and> MIDDLE_TIP < length (pinch_frame 0.06)
   \<and> (\<exists>tr. run_frames init_engine
              [(pinch_frame 0.02, 0), (pinch_frame 0.045, 0.033), (pinch_frame 0.10, 0.066),
               (pinch_frame 0.06, 0.099)] = Inr tr
         \<and> map (idx_pinched \<circ> fst) tr = [True, True, False, False]
         \<and> map (mid_pinched \<circ> fst) tr = [False, False, False, False])
   \<and> unimodal [0.02, 0.045, 0.10, 0.06]
   \<and> crossings (\<lambda>d. d < 0.04) [0.02, 0.045, 0.10, 0.06] \<le> 1
   \<and> crossings (\<lambda>d. 0.05 < d) [0.02, 0.045, 0.10, 0.06] \<le> 1
   \<and> changes (flag_trace False [0.02, 0.045, 0.10, 0.06]) \<le> 2
   \<and> changes (False # flag_trace False [0.02, 0.045, 0.10, 0.06]) \<le> 2
   \<and> flag_trace False [0.02, 0.045, 0.10, 0.06] = [True, True, False, False]"
proof -
  let ?fs = "[(pinch_frame 0.02, 0), (pinch_frame 0.045, 0.033), (pinch_frame 0.10, 0.066),
              (pinch_frame 0.06, 0.099 :: real)]"
  let ?ds = "[0.02, 0.045, 0.10, 0.06 :: real]"
  have wf: "\<forall>f \<in> set ?fs. MIDDLE_TIP < length (fst f)" by simp
  have um: "unimodal ?ds" by simp
  have cr: "crossings (\<lambda>d. d < 0.04) ?ds \<le> 1" "crossings (\<lambda>d. 0.05 < d) ?ds \<le> 1"
    by simp_all
  have ft: "flag_trace False ?ds = [True, True, False, False]"
    by (simp add: new_pinched_def)
  have d: "map (idx_d \<circ> fst) ?fs = ?ds" "map (mid_d \<circ> fst) ?fs = [2/5, 2/5, 2/5, 2/5]"
    by simp_all
  have ft2: "flag_trace False [2/5, 2/5, 2/5, 2/5] = [False, False, False, False]"
    by (simp add: new_pinched_def)
  have i: "idx_pinched init_engine = False" "mid_pinched init_engine = False"
    by simp_all
  from hysteresis [where fs = ?fs and s = init_engine and ds = ?ds and p = False]
  have r: "\<exists>tr. run_frames init_engine ?fs = Inr tr
           \<and> map (idx_pinched \<circ> fst) tr = flag_trace (idx_pinched init_engine) (map (idx_d \<circ> fst) ?fs)
           \<and> map (mid_pinched \<circ> fst) tr = flag_trace (mid_pinched init_engine) (map (mid_d \<circ> fst) ?fs)"
    and c: "changes (flag_trace False ?ds) \<le> 2" "changes (False # flag_trace False ?ds) \<le> 2"
    using wf um cr by blast+
  from r have r': "\<exists>tr. run_frames init_engine ?fs = Inr tr
         \<and> map (idx_pinched \<circ> fst) tr = [True, True, False, False]
         \<and> map (mid_pinched \<circ> fst) tr = [False, False, False, False]"
    unfolding d i ft ft2 .
  have wf': "MIDDLE_TIP < length (pinch_frame 0.02)" "MIDDLE_TIP < length (pinch_frame 0.045)"
    "MIDDLE_TIP < length (pinch_frame 0.10)" "MIDDLE_TIP < length (pinch_frame 0.06)"
    by simp_all
  show ?thesis
    using wf' r' um cr c ft by (intro conjI)
qed

subsection \<open>The windowed velocity\<close>

text \<open>
  What the loop of \<open>_calc_vel\<close> returns: the last sample of the leading run of samples
  that are not newer than the target, or the starting value when that run is empty.
\<close>

lemma scan_best_takeWhile:
  "scan_best target_t best tr =
     (if takeWhile (\<lambda>p. snd (snd p) \<le> target_t) tr = [] then best
      else last (takeWhile (\<lambda>p. snd (snd p) \<le> target_t) tr))"
  by (induction tr arbitrary: best) auto

text \<open>
  Claim C7, as the code has it. \<open>_calc_vel\<close> never raises. It returns 0 for a trail of
  fewer than 3 samples. Otherwise its reference sample is the last one of the leading run
  of samples with \<open>t \<le> latest.t - 0.1\<close>, or the oldest sample when that run is empty; with
  \<open>dt = latest.t - reference.t\<close> it returns 0 when \<open>dt < 0.01\<close> and the distance from the
  reference to the latest sample times \<open>0.1 / dt\<close> otherwise.
\<close>

theorem calc_vel_windowed:
  "calc_vel tr =
     Inr (if length tr < 3 then 0
          else
            let target_t = snd (snd (last tr)) - 0.1;
                lead = takeWhile (\<lambda>p. snd (snd p) \<le> target_t) tr;
                ref = (if lead = [] then hd tr else last lead);
                dt = snd (snd (last tr)) - snd (snd ref)
            in if dt < 0.01 then 0
               else sqrt ((fst (last tr) - fst ref)\<^sup>2 + (fst (snd (last tr)) - fst (snd ref))\<^sup>2)
                      * (0.1 / dt))"
proof (cases "length tr < 3")
  case True
  then show ?thesis by (simp add: calc_vel_def)
next
  case False
  then have ne: "tr \<noteq> []" by auto
  show ?thesis
    using False ne
    by (auto simp: calc_vel_def scan_best_takeWhile Let_def split: prod.splits)
qed

text \<open>
  The claim takes the reference to be the earliest sample at or after the target. On a
  trail sampled every 33 ms the loop stops at the oldest sample (1.000 is the only one at
  or before the target 1.032), the wording picks the second one (1.033), and the two
  velocities differ.
\<close>

theorem calc_vel_reference_counterexample:
  "scan_best (1.132 - 0.1) (hd moving_trail) moving_trail = (0.50, 0.5, 1.000)
   \<and> find (\<lambda>p. snd (snd (last moving_trail)) - 0.1 \<le> snd (snd p)) moving_trail
       = Some (0.50, 0.5, 1.033)
   \<and> calc_vel moving_trail = Inr (1 / 22)
   \<and> calc_vel_spec moving_trail = 2 / 33"
  by (simp add: moving_trail_def calc_vel_def calc_vel_spec_def Let_def)

subsection \<open>The event of a frame\<close>

lemma machine_keeps_measures:
  assumes "machine t ix iy now = Inr s'"
  shows "cursor_x s' = cursor_x t \<and> cursor_y s' = cursor_y t
       \<and> idx_dist s' = idx_dist t \<and> mid_dist s' = mid_dist t"
proof -
  obtain v where v: "calc_vel (trail (t\<lparr>dur_ms := (now - pinch_t0 t) * 1000\<rparr>)) = Inr v"
    using calc_vel_total by blast
  show ?thesis
  proof (cases "state t")
    case S_IDLE
    with assms show ?thesis
      by (auto simp: machine_def idle_branch_def enter_mid_pinch_def enter_idx_pinch_def Let_def
          split: if_splits)
  next
    case S_IDX_PINCH
    with assms show ?thesis
      unfolding machine_def idx_branch_def Let_def idx_release_eq [OF v]
      by (auto simp: idx_track_def Let_def split: if_splits option.splits)
  next
    case S_MID_PINCH
    with assms show ?thesis
      by (auto simp: machine_def mid_branch_def flash_def Let_def split: if_splits)
  qed
qed

lemma round_half_even_near: "\<bar>of_int (round_half_even v) - v\<bar> \<le> 1 / 2"
proof -
  have "of_int \<lfloor>v\<rfloor> \<le> v" "v < of_int \<lfloor>v\<rfloor> + 1" by linarith+
  then show ?thesis
    by (auto simp: round_half_even_def Let_def)
qed

lemma py_round_near: "\<bar>py_round v n - v\<bar> \<le> 1 / (2 * 10 ^ n)"
proof -
  have p: "(0::real) < 10 ^ n" by simp
  have "\<bar>py_round v n - v\<bar> = \<bar>of_int (round_half_even (v * 10 ^ n)) - v * 10 ^ n\<bar> / 10 ^ n"
    using p by (simp add: py_round_def field_simps abs_mult [symmetric] del: of_int_mult)
  also have "\<dots> \<le> (1 / 2) / 10 ^ n"
    by (rule divide_right_mono [OF round_half_even_near]) simp
  finally show ?thesis by simp
qed

text \<open>
  Claim C8, as the code has it. Every call of \<open>update\<close> on a landmark list that holds
  the indices 4, 8 and 12 returns one event, whatever the state and also when no gesture
  is active. The engine's cursor is the index finger tip; the event's cursor is the tip
  with each coordinate rounded to 5 decimals, so within 0.000005 of it. The confidence is
  \<open>1 - min(index distance, middle distance)\<close>: at most 1, not clamped, and negative
  exactly when both distances exceed 1.
\<close>

theorem frame_event_fields:
  assumes "MIDDLE_TIP < length lm"
  shows "\<exists>s' ev. update s lm now = Inr (s', ev)
           \<and> (cursor_x s', cursor_y s') = tip lm
           \<and> cursor ev = (py_round (fst (tip lm)) 5, py_round (snd (tip lm)) 5)
           \<and> \<bar>fst (cursor ev) - fst (tip lm)\<bar> \<le> 1 / 200000
           \<and> \<bar>snd (cursor ev) - snd (tip lm)\<bar> \<le> 1 / 200000
           \<and> confidence ev = 1 - min (idx_d lm) (mid_d lm)
           \<and> confidence ev \<le> 1
           \<and> (confidence ev < 0 \<longleftrightarrow> 1 < idx_d lm \<and> 1 < mid_d lm)"
proof -
  from update_step [OF assms, of s now] obtain s' ev
    where u: "update s lm now = Inr (s', ev)"
      and m: "machine (sensed s lm now) (fst (tip lm)) (snd (tip lm)) now = Inr s'"
      and e: "confidence ev = 1 - min (idx_dist s') (mid_dist s')"
        "cursor ev = (py_round (cursor_x s') 5, py_round (cursor_y s') 5)"
    by blast
  from machine_keeps_measures [OF m]
  have k: "cursor_x s' = fst (tip lm)" "cursor_y s' = snd (tip lm)"
    "idx_dist s' = idx_d lm" "mid_dist s' = mid_d lm"
    by (simp_all add: tip_def)
  have nn: "0 \<le> idx_d lm" "0 \<le> mid_d lm"
    by (simp_all add: dist_lm_def)
  have r: "\<bar>py_round (fst (tip lm)) 5 - fst (tip lm)\<bar> \<le> 1 / 200000"
    "\<bar>py_round (snd (tip lm)) 5 - snd (tip lm)\<bar> \<le> 1 / 200000"
    using py_round_near [of "fst (tip lm)" 5] py_round_near [of "snd (tip lm)" 5] by simp_all
  have c: "confidence ev = 1 - min (idx_d lm) (mid_d lm)"
    using e(1) k by (simp del: idx_d_def mid_d_def)
  have "confidence ev \<le> 1" "confidence ev < 0 \<longleftrightarrow> 1 < idx_d lm \<and> 1 < mid_d lm"
    unfolding c using nn by (auto simp del: idx_d_def mid_d_def)
  with u k e(2) r c show ?thesis
    by (simp del: idx_d_def mid_d_def)
qed

lemma far_hand_simps [simp]:
  "MIDDLE_TIP < length far_hand"
  "tip far_hand = (0.123456, 1)"
  by (simp_all add: far_hand_def pt_def)

lemma far_hand_dist:
  "1 < idx_d far_hand" "1 < mid_d far_hand"
  by (simp_all add: far_hand_def dist_pt)

theorem frame_event_fields_witness:
  "MIDDLE_TIP < length far_hand
   \<and> (\<exists>s' ev. update init_engine far_hand 1 = Inr (s', ev)
         \<and> (cursor_x s', cursor_y s') = (0.123456, 1)
         \<and> cursor ev = (py_round 0.123456 5, py_round 1 5)
         \<and> confidence ev < 0)"
  using frame_event_fields [of far_hand init_engine 1] far_hand_dist
  by (simp del: idx_d_def mid_d_def; blast)

text \<open>
  The claim has the event's cursor equal to the finger tip and the confidence within
  \<open>[0, 1]\<close>. With the thumb at \<open>(0, 0)\<close>, the index tip at \<open>(0.123456, 1)\<close> and the
  middle tip at \<open>(1, 1)\<close>, all inside the unit square, the event's cursor is
  \<open>(0.12346, 1)\<close> and its confidence is negative.
\<close>

theorem confidence_cursor_counterexample:
  "\<not> isl (update init_engine far_hand 1)
   \<and> tip far_hand = (0.123456, 1)
   \<and> cursor (snd (projr (update init_engine far_hand 1))) = (0.12346, 1)
   \<and> confidence (snd (projr (update init_engine far_hand 1))) < 0"
proof -
  let ?s = "(sensed init_engine far_hand 1)\<lparr>gtype := ''none'', gstate := ''idle''\<rparr>"
  have f: "\<not> new_pinched (mid_d far_hand) (mid_pinched init_engine)"
    "\<not> (new_pinched (idx_d far_hand) (idx_pinched init_engine) \<and> dbl_cooldown_until init_engine < 1)"
    using far_hand_dist by (simp_all add: new_pinched_def del: idx_d_def mid_d_def)
  have u: "update init_engine far_hand 1 = Inr (?s, ev_of ?s far_hand)"
    by (rule step_idle_stay [OF _ _ f]) simp_all
  have r: "py_round 0.123456 5 = 0.12346" "py_round 1 5 = 1"
    by (simp_all add: py_round_def round_half_even_def Let_def)
  have c: "confidence (ev_of ?s far_hand) < 0"
    using far_hand_dist by simp
  have t: "cursor (ev_of ?s far_hand) = (0.12346, 1)"
    using r by (simp add: far_hand_def pt_def)
  show ?thesis
    unfolding u using c t by simp
qed


subsection \<open>Landmark lists of the wrong length\<close>

text \<open>
  Claim C9, as the code has it. \<open>update\<close> does not check the length of the landmark list.
  It raises IndexError, before it changes anything, exactly when the list has no index 12,
  that is fewer than 13 entries. A list of any other length, 21 or not, yields an event,
  whose landmark snapshot has as many entries as the list.
\<close>

theorem landmark_reads:
  "(length lm \<le> MIDDLE_TIP \<longrightarrow> update s lm now = Inl IndexError)
   \<and> (MIDDLE_TIP < length lm \<longrightarrow>
        (\<exists>s' ev. update s lm now = Inr (s', ev) \<and> length (landmarks ev) = length lm))"
proof (intro conjI impI)
  assume "length lm \<le> MIDDLE_TIP"
  then show "update s lm now = Inl IndexError"
    by (rule update_short)
next
  assume "MIDDLE_TIP < length lm"
  from update_step [OF this, of s now]
  show "\<exists>s' ev. update s lm now = Inr (s', ev) \<and> length (landmarks ev) = length lm"
    by blast
qed

lemma short_hand_simps [simp]:
  "length short_hand = 13"
  "short_hand ! THUMB_TIP = open_hand ! THUMB_TIP"
  "short_hand ! INDEX_TIP = open_hand ! INDEX_TIP"
  "short_hand ! MIDDLE_TIP = open_hand ! MIDDLE_TIP"
  by (simp_all add: short_hand_def open_hand_def tip_defs)

theorem landmark_reads_witness:
  "length (take 12 open_hand) \<le> MIDDLE_TIP
   \<and> update init_engine (take 12 open_hand) 1 = Inl IndexError
   \<and> MIDDLE_TIP < length short_hand
   \<and> (\<exists>s' ev. update init_engine short_hand 1 = Inr (s', ev) \<and> length (landmarks ev) = 13)"
  using landmark_reads [of "take 12 open_hand" init_engine 1]
    landmark_reads [of short_hand init_engine 1]
  by (simp add: tip_defs open_hand_def)

text \<open>
  The claim has every list that is not 21 landmarks long rejected. A list of 13 landmarks
  is accepted: the call returns the event \<open>(none, idle)\<close> with a snapshot of 13 landmarks.
\<close>

theorem short_list_counterexample:
  "length short_hand = 13
   \<and> \<not> isl (update init_engine short_hand 1)
   \<and> label (projr (update init_engine short_hand 1)) = (S_IDLE, ''none'', ''idle'')
   \<and> length (landmarks (snd (projr (update init_engine short_hand 1)))) = 13"
proof -
  let ?s = "(sensed init_engine short_hand 1)\<lparr>gtype := ''none'', gstate := ''idle''\<rparr>"
  have wf: "MIDDLE_TIP < length short_hand"
    by (simp add: tip_defs)
  have u: "update init_engine short_hand 1 = Inr (?s, ev_of ?s short_hand)"
    by (rule step_idle_stay [OF _ wf]) simp_all
  show ?thesis
    unfolding u by (simp add: label_def payload_dict_def)
qed

subsection \<open>The index pinch while it lasts\<close>

lemma idx_track_kept [simp]:
  "state (idx_track u ix iy) = state u"
  "idx_pinched (idx_track u ix iy) = idx_pinched u"
  "mid_pinched (idx_track u ix iy) = mid_pinched u"
  "pinch_t0 (idx_track u ix iy) = pinch_t0 u"
  "dur_ms (idx_track u ix iy) = dur_ms u"
  "tap_count (idx_track u ix iy) = tap_count u"
  "dbl_cooldown_until (idx_track u ix iy) = dbl_cooldown_until u"
  "trail (idx_track u ix iy) = trail u"
  by (simp_all add: idx_track_def Let_def split: option.splits)

lemma idx_track_set:
  "prev_palm (idx_track u ix iy) = Some (ix, iy)"
  "cum_move (idx_track u ix iy) =
     (case prev_palm u of
        None \<Rightarrow> cum_move u
      | Some p \<Rightarrow> cum_move u + sqrt ((ix - fst p)\<^sup>2 + (iy - snd p)\<^sup>2))"
  "moved (idx_track u ix iy) = (moved u \<or> DRAG_DEADZONE < cum_move (idx_track u ix iy))"
  "gtype (idx_track u ix iy) = (if moved (idx_track u ix iy) then ''pinch_drag'' else ''pinch_hold'')"
  "gstate (idx_track u ix iy) =
     (if moved (idx_track u ix iy) \<or> HOLD_MIN_MS < dur_ms u then ''active'' else ''start'')"
  by (auto simp: idx_track_def Let_def split: option.splits)

text \<open>The release of the index pinch, with the fields of the engine that later frames read.\<close>

lemma step_idx_release:
  assumes "state s = S_IDX_PINCH" and "MIDDLE_TIP < length lm"
    and "\<not> new_pinched (idx_d lm) (idx_pinched s)"
  shows "\<exists>s' v. update s lm now = Inr (s', ev_of s' lm)
           \<and> calc_vel (trail_append (trail s) (fst (tip lm), snd (tip lm), now)) = Inr v
           \<and> state s' = S_IDLE \<and> \<not> moved s' \<and> \<not> idx_pinched s'
           \<and> mid_pinched s' = new_pinched (mid_d lm) (mid_pinched s)
           \<and> dur_ms s' = (now - pinch_t0 s) * 1000
           \<and> dbl_cooldown_until s' = dbl_cooldown_until s
           \<and> (gtype s', gstate s') =
               (if moved s \<and> FLICK_VELOCITY < v then (''pinch_flick'', ''end'')
                else if (now - pinch_t0 s) * 1000 < 200 \<and> \<not> moved s then (''tap'', ''end'')
                else if moved s then (''pinch_drag'', ''end'')
                else (''pinch_hold'', ''end''))
           \<and> tap_count s' =
               (if \<not> (moved s \<and> FLICK_VELOCITY < v) \<and> (now - pinch_t0 s) * 1000 < 200 \<and> \<not> moved s
                then 1 else tap_count s)"
proof -
  let ?u = "(sensed s lm now)\<lparr>dur_ms := (now - pinch_t0 (sensed s lm now)) * 1000\<rparr>"
  obtain v where v: "calc_vel (trail ?u) = Inr v"
    using calc_vel_total by blast
  have m: "machine (sensed s lm now) (fst (tip lm)) (snd (tip lm)) now = idx_release ?u now"
    using assms(1,3) by (simp add: machine_idx_release)
  obtain s' where s': "idx_release ?u now = Inr s'"
    unfolding idx_release_eq [OF v] by blast
  from update_eq [OF assms(2)] m s'
  have u: "update s lm now = Inr (s', ev_of s' lm)" by simp
  have tr: "calc_vel (trail_append (trail s) (fst (tip lm), snd (tip lm), now)) = Inr v"
    using v by (simp add: tip_def)
  have "state s' = S_IDLE \<and> \<not> moved s' \<and> \<not> idx_pinched s'
           \<and> mid_pinched s' = new_pinched (mid_d lm) (mid_pinched s)
           \<and> dur_ms s' = (now - pinch_t0 s) * 1000
           \<and> dbl_cooldown_until s' = dbl_cooldown_until s
           \<and> (gtype s', gstate s') =
               (if moved s \<and> FLICK_VELOCITY < v then (''pinch_flick'', ''end'')
                else if (now - pinch_t0 s) * 1000 < 200 \<and> \<not> moved s then (''tap'', ''end'')
                else if moved s then (''pinch_drag'', ''end'')
                else (''pinch_hold'', ''end''))
           \<and> tap_count s' =
               (if \<not> (moved s \<and> FLICK_VELOCITY < v) \<and> (now - pinch_t0 s) * 1000 < 200 \<and> \<not> moved s
                then 1 else tap_count s)"
    using s' assms(3) unfolding idx_release_eq [OF v]
    by (auto simp: TAP_MAX_TIME_def)
  with u tr show ?thesis by blast
qed

lemma path_len_nonneg: "0 \<le> path_len ps"
  by (induction ps rule: path_len.induct) simp_all


subsection \<open>The tap law\<close>

lemma tap_run:
  assumes "state s = S_IDX_PINCH" and "idx_pinched s" and "\<not> moved s" and "prev_palm s = Some p"
    and "cum_move s + path_len (p # map (tip \<circ> fst) fs) \<le> DRAG_DEADZONE"
    and "\<forall>f \<in> set fs. MIDDLE_TIP < length (fst f) \<and> idx_d (fst f) \<le> 0.05"
    and "MIDDLE_TIP < length lmr" and "0.05 < idx_d lmr"
    and "(t_rel - pinch_t0 s) * 1000 < 200"
  shows "\<exists>trc. run_frames s (fs @ [(lmr, t_rel)]) = Inr trc \<and> length trc = Suc (length fs)
           \<and> label (last trc) = (S_IDLE, ''tap'', ''end'')
           \<and> tap_count (fst (last trc)) = 1 \<and> ev_tap_count (snd (last trc)) = 1"
  using assms(1-6,9)
proof (induction fs arbitrary: s p)
  case Nil
  from Nil.prems(2) assms(8) have "\<not> new_pinched (idx_d lmr) (idx_pinched s)"
    by (simp add: new_pinched_def)
  from step_idx_release [OF Nil.prems(1) assms(7) this, of t_rel] obtain s' v
    where u: "update s lmr t_rel = Inr (s', ev_of s' lmr)"
      and s': "state s' = S_IDLE"
        "(gtype s', gstate s') =
               (if moved s \<and> FLICK_VELOCITY < v then (''pinch_flick'', ''end'')
                else if (t_rel - pinch_t0 s) * 1000 < 200 \<and> \<not> moved s then (''tap'', ''end'')
                else if moved s then (''pinch_drag'', ''end'')
                else (''pinch_hold'', ''end''))"
        "tap_count s' =
               (if \<not> (moved s \<and> FLICK_VELOCITY < v) \<and> (t_rel - pinch_t0 s) * 1000 < 200 \<and> \<not> moved s
                then 1 else tap_count s)"
    by blast
  from Nil.prems(3,7) s' have "gtype s' = ''tap''" "gstate s' = ''end''" "tap_count s' = 1"
    by simp_all
  with u s'(1) show ?case by (simp add: label_def)
next
  case (Cons f fs)
  obtain lm now where f: "f = (lm, now)" by (cases f)
  with Cons.prems(6) have wf: "MIDDLE_TIP < length lm" and near: "idx_d lm \<le> 0.05"
    and rest: "\<forall>f \<in> set fs. MIDDLE_TIP < length (fst f) \<and> idx_d (fst f) \<le> 0.05"
    by simp_all
  from Cons.prems(2) near have on: "new_pinched (idx_d lm) (idx_pinched s)"
    by (simp add: new_pinched_def)
  let ?s' = "idx_track ((sensed s lm now)\<lparr>dur_ms := (now - pinch_t0 s) * 1000\<rparr>)
               (fst (tip lm)) (snd (tip lm))"
  have u: "update s lm now = Inr (?s', ev_of ?s' lm)"
    using Cons.prems(1) wf on by (rule step_idx_track)
  have c: "cum_move ?s' = cum_move s + sqrt ((fst (tip lm) - fst p)\<^sup>2 + (snd (tip lm) - snd p)\<^sup>2)"
    using Cons.prems(4) by (simp add: idx_track_set)
  have pl: "cum_move ?s' + path_len (tip lm # map (tip \<circ> fst) fs) \<le> DRAG_DEADZONE"
    using Cons.prems(5) f unfolding c by (simp add: o_def)
  moreover have "0 \<le> path_len (tip lm # map (tip \<circ> fst) fs)"
    by (rule path_len_nonneg)
  ultimately have "\<not> DRAG_DEADZONE < cum_move ?s'" by linarith
  with Cons.prems(3) have nm: "\<not> moved ?s'"
    by (simp add: idx_track_set(3))
  have st: "state ?s' = S_IDX_PINCH" "idx_pinched ?s'" "prev_palm ?s' = Some (tip lm)"
    "pinch_t0 ?s' = pinch_t0 s"
    using Cons.prems(1) on by (simp_all add: idx_track_set)
  from Cons.prems(7) st(4) have "(t_rel - pinch_t0 ?s') * 1000 < 200"
    by simp
  from Cons.IH [OF st(1,2) nm st(3) pl rest this] obtain trc
    where t: "run_frames ?s' (fs @ [(lmr, t_rel)]) = Inr trc" "length trc = Suc (length fs)"
      "label (last trc) = (S_IDLE, ''tap'', ''end'')"
      "tap_count (fst (last trc)) = 1" "ev_tap_count (snd (last trc)) = 1"
    by blast
  have "run_frames s ((f # fs) @ [(lmr, t_rel)]) = Inr ((?s', ev_of ?s' lm) # trc)"
    using u t(1) f by simp
  moreover from t(2) have "trc \<noteq> []" by auto
  ultimately show ?case using t by simp
qed

text \<open>
  Claim C3. From \<open>S_IDLE\<close>, let a frame turn the index flag on with the middle flag off and
  the cooldown over, let the frames that follow keep the index pinch while the path of the
  tracked point from the entry on stays shorter than 0.05, and let the release come less
  than 200 ms after the entry. Then the run returns, the release frame is classified
  \<open>(tap, end)\<close> with tap count 1, and the engine is back in \<open>S_IDLE\<close>.
\<close>

theorem tap_law:
  assumes "state s = S_IDLE" and "MIDDLE_TIP < length lm0"
    and "new_pinched (idx_d lm0) (idx_pinched s)"
    and "\<not> new_pinched (mid_d lm0) (mid_pinched s)"
    and "dbl_cooldown_until s < t0"
    and "\<forall>f \<in> set fs. MIDDLE_TIP < length (fst f) \<and> idx_d (fst f) \<le> 0.05"
    and "MIDDLE_TIP < length lmr" and "0.05 < idx_d lmr"
    and "path_len (map (tip \<circ> fst) ((lm0, t0) # fs)) < 0.05"
    and "(t_rel - t0) * 1000 < 200"
  shows "\<exists>trc. run_frames s ((lm0, t0) # fs @ [(lmr, t_rel)]) = Inr trc
           \<and> length trc = length fs + 2
           \<and> label (last trc) = (S_IDLE, ''tap'', ''end'')
           \<and> tap_count (fst (last trc)) = 1 \<and> ev_tap_count (snd (last trc)) = 1"
proof -
  let ?s0 = "enter_idx_pinch ((sensed s lm0 t0)\<lparr>gtype := ''none'', gstate := ''idle''\<rparr>) t0
               (fst (tip lm0)) (snd (tip lm0))"
  have u: "update s lm0 t0 = Inr (?s0, ev_of ?s0 lm0)"
    using assms(1,2,4,3,5) by (rule step_idle_idx)
  have st: "state ?s0 = S_IDX_PINCH" "idx_pinched ?s0" "\<not> moved ?s0"
    "prev_palm ?s0 = Some (tip lm0)" "cum_move ?s0 = 0" "pinch_t0 ?s0 = t0"
    using assms(3) by (simp_all add: enter_idx_pinch_def)
  have pl: "cum_move ?s0 + path_len (tip lm0 # map (tip \<circ> fst) fs) \<le> DRAG_DEADZONE"
    using assms(9) st(5) by (simp add: DRAG_DEADZONE_def)
  have d: "(t_rel - pinch_t0 ?s0) * 1000 < 200"
    using assms(10) st(6) by simp
  from tap_run [OF st(1-4) pl assms(6,7,8) d] obtain trc
    where t: "run_frames ?s0 (fs @ [(lmr, t_rel)]) = Inr trc" "length trc = Suc (length fs)"
      "label (last trc) = (S_IDLE, ''tap'', ''end'')"
      "tap_count (fst (last trc)) = 1" "ev_tap_count (snd (last trc)) = 1"
    by blast
  have "run_frames s ((lm0, t0) # fs @ [(lmr, t_rel)]) = Inr ((?s0, ev_of ?s0 lm0) # trc)"
    using u t(1) by simp
  moreover from t(2) have "trc \<noteq> []" by auto
  ultimately show ?thesis using t by simp
qed


text \<open>
  The scenario of the specification: index distances 0.10, 0.02, 0.02, 0.02, 0.10 sampled
  33 ms apart, the hand at rest.
\<close>

theorem tap_law_witness:
  "path_len (map (tip \<circ> fst)
      [(pinch_frame 0.02, 1.033), (pinch_frame 0.02, 1.066), (pinch_frame 0.02, 1.099 :: real)]) < 0.05
   \<and> (1.132 - 1.033) * 1000 < (200 :: real)
   \<and> (\<exists>trc. run_frames init_engine
                [(pinch_frame 0.10, 1), (pinch_frame 0.02, 1.033), (pinch_frame 0.02, 1.066),
                 (pinch_frame 0.02, 1.099), (pinch_frame 0.10, 1.132)] = Inr trc
         \<and> length trc = 5
         \<and> label (hd trc) = (S_IDLE, ''none'', ''idle'')
         \<and> label (last trc) = (S_IDLE, ''tap'', ''end'')
         \<and> tap_count (fst (last trc)) = 1 \<and> ev_tap_count (snd (last trc)) = 1)"
proof -
  let ?s1 = "(sensed init_engine (pinch_frame 0.10) 1)\<lparr>gtype := ''none'', gstate := ''idle''\<rparr>"
  let ?fs = "[(pinch_frame 0.02, 1.066), (pinch_frame 0.02, 1.099 :: real)]"
  have u1: "update init_engine (pinch_frame 0.10) 1 = Inr (?s1, ev_of ?s1 (pinch_frame 0.10))"
    by (rule step_idle_stay) (simp_all add: new_pinched_def)
  have h: "state ?s1 = S_IDLE" "MIDDLE_TIP < length (pinch_frame 0.02)"
    "new_pinched (idx_d (pinch_frame 0.02)) (idx_pinched ?s1)"
    "\<not> new_pinched (mid_d (pinch_frame 0.02)) (mid_pinched ?s1)"
    "dbl_cooldown_until ?s1 < 1.033"
    "\<forall>f \<in> set ?fs. MIDDLE_TIP < length (fst f) \<and> idx_d (fst f) \<le> 0.05"
    "MIDDLE_TIP < length (pinch_frame 0.10)" "0.05 < idx_d (pinch_frame 0.10)"
    by (simp_all add: new_pinched_def)
  have p: "path_len (map (tip \<circ> fst) ((pinch_frame 0.02, 1.033) # ?fs)) < 0.05"
    by simp
  have d: "(1.132 - 1.033) * 1000 < (200 :: real)"
    by simp
  from tap_law [OF h p d] obtain trc
    where t: "run_frames ?s1 ((pinch_frame 0.02, 1.033) # ?fs @ [(pinch_frame 0.10, 1.132)]) = Inr trc"
      "length trc = length ?fs + 2"
      "label (last trc) = (S_IDLE, ''tap'', ''end'')"
      "tap_count (fst (last trc)) = 1" "ev_tap_count (snd (last trc)) = 1"
    by blast
  have r: "run_frames init_engine
                [(pinch_frame 0.10, 1), (pinch_frame 0.02, 1.033), (pinch_frame 0.02, 1.066),
                 (pinch_frame 0.02, 1.099), (pinch_frame 0.10, 1.132)]
      = Inr ((?s1, ev_of ?s1 (pinch_frame 0.10)) # trc)"
    using t(1) by (simp only: run_frames.simps u1 sum.case prod.case append.simps)
  from t(2) have ne: "trc \<noteq> []" by auto
  have l: "label (?s1, ev_of ?s1 (pinch_frame 0.10)) = (S_IDLE, ''none'', ''idle'')"
    by (simp add: label_def)
  show ?thesis
    unfolding r using p d t(2-5) ne l by simp
qed

subsection \<open>Sticky drag\<close>

lemma machine_moved_reset:
  assumes "machine t ix iy now = Inr s'" and "moved t" and "\<not> moved s'"
  shows "(state t = S_IDX_PINCH \<and> \<not> idx_pinched t \<and> state s' = S_IDLE)
       \<or> (state t = S_IDLE \<and> state s' = S_IDX_PINCH)"
proof -
  obtain v where v: "calc_vel (trail (t\<lparr>dur_ms := (now - pinch_t0 t) * 1000\<rparr>)) = Inr v"
    using calc_vel_total by blast
  show ?thesis
  proof (cases "state t")
    case S_IDLE
    with assms show ?thesis
      by (auto simp: machine_def idle_branch_def enter_mid_pinch_def enter_idx_pinch_def Let_def
          split: if_splits)
  next
    case S_IDX_PINCH
    show ?thesis
    proof (cases "idx_pinched t")
      case True
      with S_IDX_PINCH assms show ?thesis
        by (auto simp: machine_idx_track idx_track_set(3))
    next
      case False
      with S_IDX_PINCH assms show ?thesis
        unfolding machine_idx_release [OF S_IDX_PINCH False] idx_release_eq [OF v]
        by (auto split: if_splits)
    qed
  next
    case S_MID_PINCH
    with assms show ?thesis
      by (auto simp: machine_def mid_branch_def flash_def Let_def split: if_splits)
  qed
qed

lemma drag_step:
  assumes "state s = S_IDX_PINCH" and "MIDDLE_TIP < length lm"
    and "new_pinched (idx_d lm) (idx_pinched s)"
  shows "\<exists>s' ev. update s lm now = Inr (s', ev) \<and> state s' = S_IDX_PINCH
           \<and> idx_pinched s'
           \<and> cum_move s' =
               (case prev_palm s of
                  None \<Rightarrow> cum_move s
                | Some p \<Rightarrow>
                    cum_move s + sqrt ((fst (tip lm) - fst p)\<^sup>2 + (snd (tip lm) - snd p)\<^sup>2))
           \<and> moved s' = (moved s \<or> 0.05 < cum_move s')
           \<and> (moved s' \<longrightarrow> (ev_type ev, ev_state ev) = (''pinch_drag'', ''active''))"
proof -
  let ?s' = "idx_track ((sensed s lm now)\<lparr>dur_ms := (now - pinch_t0 s) * 1000\<rparr>)
               (fst (tip lm)) (snd (tip lm))"
  have u: "update s lm now = Inr (?s', ev_of ?s' lm)"
    using assms by (rule step_idx_track)
  have "state ?s' = S_IDX_PINCH" "idx_pinched ?s'"
    "cum_move ?s' =
               (case prev_palm s of
                  None \<Rightarrow> cum_move s
                | Some p \<Rightarrow>
                    cum_move s + sqrt ((fst (tip lm) - fst p)\<^sup>2 + (snd (tip lm) - snd p)\<^sup>2))"
    "moved ?s' = (moved s \<or> 0.05 < cum_move ?s')"
    "moved ?s' \<longrightarrow> (ev_type (ev_of ?s' lm), ev_state (ev_of ?s' lm)) = (''pinch_drag'', ''active'')"
    using assms(1,3) by (simp_all add: idx_track_set DRAG_DEADZONE_def split: option.splits)
  with u show ?thesis by blast
qed

lemma drag_run:
  assumes "state s = S_IDX_PINCH" and "idx_pinched s" and "moved s"
    and "\<forall>f \<in> set fs. MIDDLE_TIP < length (fst f) \<and> idx_d (fst f) \<le> 0.05"
  shows "\<exists>trc. run_frames s fs = Inr trc \<and> length trc = length fs
           \<and> (\<forall>r \<in> set trc. moved (fst r) \<and> label r = (S_IDX_PINCH, ''pinch_drag'', ''active''))"
  using assms
proof (induction fs arbitrary: s)
  case Nil
  then show ?case by simp
next
  case (Cons f fs)
  obtain lm now where f: "f = (lm, now)" by (cases f)
  with Cons.prems(4) have wf: "MIDDLE_TIP < length lm" and near: "idx_d lm \<le> 0.05"
    and rest: "\<forall>f \<in> set fs. MIDDLE_TIP < length (fst f) \<and> idx_d (fst f) \<le> 0.05"
    by simp_all
  from Cons.prems(2) near have on: "new_pinched (idx_d lm) (idx_pinched s)"
    by (simp add: new_pinched_def)
  from drag_step [OF Cons.prems(1) wf on, of now] Cons.prems(3) obtain s' ev
    where u: "update s lm now = Inr (s', ev)"
      and s': "state s' = S_IDX_PINCH" "idx_pinched s'" "moved s'"
      and ev: "(ev_type ev, ev_state ev) = (''pinch_drag'', ''active'')"
    by auto
  from Cons.IH [OF s' rest] obtain trc
    where t: "run_frames s' fs = Inr trc" "length trc = length fs"
      "\<forall>r \<in> set trc. moved (fst r) \<and> label r = (S_IDX_PINCH, ''pinch_drag'', ''active'')"
    by blast
  have "run_frames s (f # fs) = Inr ((s', ev) # trc)"
    using u t(1) f by simp
  moreover have "label (s', ev) = (S_IDX_PINCH, ''pinch_drag'', ''active'')"
    using s'(1) ev by (simp add: label_def)
  ultimately show ?case using t s'(3) by simp
qed

text \<open>
  Claim C5. In a frame that keeps the index pinch the cumulative displacement grows by the
  step of the tracked point, and \<open>moved\<close> is on afterwards exactly when it was on before
  or the cumulative displacement now exceeds 0.05; with \<open>moved\<close> on the frame is
  classified \<open>(pinch_drag, active)\<close>. Once \<open>moved\<close> is on, every later frame of the pinch
  has it on and is classified \<open>(pinch_drag, active)\<close>, whatever the displacement of the
  frame. A frame turns \<open>moved\<close> off only by ending the index pinch or by entering a new one.
\<close>

theorem sticky_drag:
  "(MIDDLE_TIP < length lm \<longrightarrow>
      (\<exists>s' ev. update s lm now = Inr (s', ev)
         \<and> (state s = S_IDX_PINCH \<and> new_pinched (idx_d lm) (idx_pinched s) \<longrightarrow>
              state s' = S_IDX_PINCH
              \<and> cum_move s' =
                  (case prev_palm s of
                     None \<Rightarrow> cum_move s
                   | Some p \<Rightarrow>
                       cum_move s + sqrt ((fst (tip lm) - fst p)\<^sup>2 + (snd (tip lm) - snd p)\<^sup>2))
              \<and> moved s' = (moved s \<or> 0.05 < cum_move s')
              \<and> (moved s' \<longrightarrow> (ev_type ev, ev_state ev) = (''pinch_drag'', ''active'')))
         \<and> (moved s \<and> \<not> moved s' \<longrightarrow>
              (state s = S_IDX_PINCH \<and> \<not> new_pinched (idx_d lm) (idx_pinched s) \<and> state s' = S_IDLE)
              \<or> (state s = S_IDLE \<and> state s' = S_IDX_PINCH))))
   \<and> (state s = S_IDX_PINCH \<and> idx_pinched s \<and> moved s
        \<and> (\<forall>f \<in> set fs. MIDDLE_TIP < length (fst f) \<and> idx_d (fst f) \<le> 0.05) \<longrightarrow>
      (\<exists>trc. run_frames s fs = Inr trc \<and> length trc = length fs
         \<and> (\<forall>r \<in> set trc. moved (fst r) \<and> label r = (S_IDX_PINCH, ''pinch_drag'', ''active''))))"
proof (intro conjI impI)
  assume wf: "MIDDLE_TIP < length lm"
  from update_step [OF wf, of s now] obtain s' ev
    where u: "update s lm now = Inr (s', ev)"
      and m: "machine (sensed s lm now) (fst (tip lm)) (snd (tip lm)) now = Inr s'"
    by blast
  have a: "state s' = S_IDX_PINCH
              \<and> cum_move s' =
                  (case prev_palm s of
                     None \<Rightarrow> cum_move s
                   | Some p \<Rightarrow>
                       cum_move s + sqrt ((fst (tip lm) - fst p)\<^sup>2 + (snd (tip lm) - snd p)\<^sup>2))
              \<and> moved s' = (moved s \<or> 0.05 < cum_move s')
              \<and> (moved s' \<longrightarrow> (ev_type ev, ev_state ev) = (''pinch_drag'', ''active''))"
    if "state s = S_IDX_PINCH \<and> new_pinched (idx_d lm) (idx_pinched s)"
    using drag_step [of s lm now] that wf u by auto
  have b: "(state s = S_IDX_PINCH \<and> \<not> new_pinched (idx_d lm) (idx_pinched s) \<and> state s' = S_IDLE)
              \<or> (state s = S_IDLE \<and> state s' = S_IDX_PINCH)"
    if "moved s \<and> \<not> moved s'"
    using machine_moved_reset [OF m] that by simp
  from u a b show "\<exists>s' ev. update s lm now = Inr (s', ev)
         \<and> (state s = S_IDX_PINCH \<and> new_pinched (idx_d lm) (idx_pinched s) \<longrightarrow>
              state s' = S_IDX_PINCH
              \<and> cum_move s' =
                  (case prev_palm s of
                     None \<Rightarrow> cum_move s
                   | Some p \<Rightarrow>
                       cum_move s + sqrt ((fst (tip lm) - fst p)\<^sup>2 + (snd (tip lm) - snd p)\<^sup>2))
              \<and> moved s' = (moved s \<or> 0.05 < cum_move s')
              \<and> (moved s' \<longrightarrow> (ev_type ev, ev_state ev) = (''pinch_drag'', ''active'')))
         \<and> (moved s \<and> \<not> moved s' \<longrightarrow>
              (state s = S_IDX_PINCH \<and> \<not> new_pinched (idx_d lm) (idx_pinched s) \<and> state s' = S_IDLE)
              \<or> (state s = S_IDLE \<and> state s' = S_IDX_PINCH))"
    by blast
next
  assume "state s = S_IDX_PINCH \<and> idx_pinched s \<and> moved s
        \<and> (\<forall>f \<in> set fs. MIDDLE_TIP < length (fst f) \<and> idx_d (fst f) \<le> 0.05)"
  then show "\<exists>trc. run_frames s fs = Inr trc \<and> length trc = length fs
         \<and> (\<forall>r \<in> set trc. moved (fst r) \<and> label r = (S_IDX_PINCH, ''pinch_drag'', ''active''))"
    using drag_run by blast
qed


lemma holding_simps [simp]:
  "state holding = S_IDX_PINCH" "idx_pinched holding" "\<not> moved holding"
  "pinch_t0 holding = 1" "prev_palm holding = Some (0.44, 0.5)" "cum_move holding = 0.03"
  "tap_count holding = 0" "trail holding = [(0.44, 0.5, 1)]"
  by (simp_all add: holding_def init_engine_def)

theorem sticky_drag_witness:
  "MIDDLE_TIP < length (pinch_frame 0.02) \<and> state holding = S_IDX_PINCH
   \<and> new_pinched (idx_d (pinch_frame 0.02)) (idx_pinched holding) \<and> \<not> moved holding
   \<and> (\<exists>s' ev. update holding (pinch_frame 0.02) 1.033 = Inr (s', ev)
         \<and> cum_move s' = 0.09 \<and> moved s'
         \<and> (ev_type ev, ev_state ev) = (''pinch_drag'', ''active''))
   \<and> MIDDLE_TIP < length open_hand \<and> moved flicking
   \<and> (\<exists>s' ev. update flicking open_hand 1 = Inr (s', ev) \<and> \<not> moved s' \<and> state s' = S_IDLE)
   \<and> state flicking = S_IDX_PINCH \<and> idx_pinched flicking
   \<and> (\<exists>trc. run_frames flicking [(pinch_frame 0.02, 1), (pinch_frame 0.02, 1.033)] = Inr trc
         \<and> length trc = 2
         \<and> (\<forall>r \<in> set trc. moved (fst r) \<and> label r = (S_IDX_PINCH, ''pinch_drag'', ''active'')))"
proof -
  have h1: "MIDDLE_TIP < length (pinch_frame 0.02)" "state holding = S_IDX_PINCH"
    "new_pinched (idx_d (pinch_frame 0.02)) (idx_pinched holding)" "\<not> moved holding"
    by (simp_all add: new_pinched_def)
  from sticky_drag [of "pinch_frame 0.02" holding "1.033" "[]"] h1
  have a: "\<exists>s' ev. update holding (pinch_frame 0.02) 1.033 = Inr (s', ev)
         \<and> cum_move s' = 0.09 \<and> moved s'
         \<and> (ev_type ev, ev_state ev) = (''pinch_drag'', ''active'')"
    by (simp del: idx_d_def; force)
  have h2: "MIDDLE_TIP < length open_hand" "moved flicking" "state flicking = S_IDX_PINCH"
    "idx_pinched flicking" "\<not> new_pinched (idx_d open_hand) (idx_pinched flicking)"
    by simp_all
  from step_idx_release [OF h2(3,1,5), of 1] obtain s1
    where s1: "update flicking open_hand 1 = Inr (s1, ev_of s1 open_hand)" "\<not> moved s1"
    by blast
  from sticky_drag [of open_hand flicking 1 "[]"] h2 s1
  have b: "\<exists>s' ev. update flicking open_hand 1 = Inr (s', ev) \<and> \<not> moved s' \<and> state s' = S_IDLE"
    by (simp del: idx_d_def)
  let ?fs = "[(pinch_frame 0.02, 1), (pinch_frame 0.02, 1.033 :: real)]"
  have h3: "\<forall>f \<in> set ?fs. MIDDLE_TIP < length (fst f) \<and> idx_d (fst f) \<le> 0.05"
    by simp
  from sticky_drag [of open_hand flicking 1 ?fs] h2 h3
  have c: "\<exists>trc. run_frames flicking ?fs = Inr trc \<and> length trc = length ?fs
         \<and> (\<forall>r \<in> set trc. moved (fst r) \<and> label r = (S_IDX_PINCH, ''pinch_drag'', ''active''))"
    by blast
  then have c': "\<exists>trc. run_frames flicking ?fs = Inr trc \<and> length trc = 2
         \<and> (\<forall>r \<in> set trc. moved (fst r) \<and> label r = (S_IDX_PINCH, ''pinch_drag'', ''active''))"
    by (auto simp del: run_frames.simps)
  show ?thesis
    using h1 a h2(1-4) b c' by (intro conjI)
qed

subsection \<open>Tap count and duration after a gesture\<close>









end
